theory Spec2Isabelle
  imports Complex_Main "HOL-Library.AList"
begin

section \<open>Errors and responses\<close>

text \<open>
  A thrown JavaScript value is either an \<open>ApiError\<close> (message, HTTP status code,
  retryable flag; its \<open>name\<close> is the string ApiError) or any other error object, of which
  the code reads the \<open>name\<close> and the \<open>message\<close>.  A raise becomes the left summand of a
  sum type.
\<close>

datatype js_error =
    ApiError string nat bool
  | JsError string string

fun error_name :: "js_error \<Rightarrow> string" where
  "error_name (ApiError message statusCode retryable) = ''ApiError''"
| "error_name (JsError name message) = name"

fun error_message :: "js_error \<Rightarrow> string" where
  "error_message (ApiError message statusCode retryable) = message"
| "error_message (JsError name message) = message"

section \<open>AdaptiveTimeoutManager (src/background/AdaptiveTimeoutManager.js)\<close>

text \<open>
  JavaScript numbers are modelled as mathematical reals: \<open>Math.sqrt\<close> is \<open>sqrt\<close>,
  \<open>Math.max\<close>/\<open>Math.min\<close> are \<open>max\<close>/\<open>min\<close>, and \<open>Math.round\<close> (nearest integer,
  ties towards plus infinity) is \<open>round\<close>, which is \<open>\<lfloor>x + 1/2\<rfloor>\<close>.  Rounding errors of
  IEEE doubles are not part of the model.

  An option object field that may be absent is an \<open>option\<close>; \<open>options.f || d\<close> yields
  \<open>d\<close> when the field is absent or falsy (the number zero).
\<close>

record timeout_options =
  opt_minTimeout :: "real option"
  opt_maxTimeout :: "real option"
  opt_defaultTimeout :: "real option"
  opt_historySize :: "nat option"

definition no_timeout_options :: timeout_options where
  "no_timeout_options =
     \<lparr>opt_minTimeout = None, opt_maxTimeout = None,
      opt_defaultTimeout = None, opt_historySize = None\<rparr>"

definition or_default :: "'a::zero option \<Rightarrow> 'a \<Rightarrow> 'a" where
  "or_default v d = (case v of None \<Rightarrow> d | Some x \<Rightarrow> if x = 0 then d else x)"

record timeout_manager =
  minTimeout :: real
  maxTimeout :: real
  defaultTimeout :: real
  historySize :: nat
  history :: "string \<rightharpoonup> real list"

definition new_AdaptiveTimeoutManager :: "timeout_options \<Rightarrow> timeout_manager" where
  "new_AdaptiveTimeoutManager options =
     \<lparr>minTimeout = or_default (opt_minTimeout options) 3000,
      maxTimeout = or_default (opt_maxTimeout options) 30000,
      defaultTimeout = or_default (opt_defaultTimeout options) 15000,
      historySize = or_default (opt_historySize options) 100,
      history = Map.empty\<rparr>"

definition recordResponseTime :: "string \<Rightarrow> real \<Rightarrow> timeout_manager \<Rightarrow> timeout_manager" where
  "recordResponseTime endpoint responseTime m =
     (let ts = (case history m endpoint of None \<Rightarrow> [] | Some old \<Rightarrow> old) @ [responseTime];
          ts' = (if length ts > historySize m then tl ts else ts)
      in m\<lparr>history := (history m)(endpoint \<mapsto> ts')\<rparr>)"

text \<open>
  \<open>times.reduce((sum, t) => g(sum, t), 0)\<close> is a left fold over the array.
\<close>

definition reduce :: "(real \<Rightarrow> real \<Rightarrow> real) \<Rightarrow> real list \<Rightarrow> real \<Rightarrow> real" where
  "reduce g ts init = foldl g init ts"

definition calculateTimeout :: "timeout_manager \<Rightarrow> string \<Rightarrow> real" where
  "calculateTimeout m endpoint =
     (case history m endpoint of
        None \<Rightarrow> defaultTimeout m
      | Some ts \<Rightarrow>
          if length ts < 5 then defaultTimeout m
          else
            let mean = reduce (\<lambda>sum t. sum + t) ts 0 / real (length ts);
                variance = reduce (\<lambda>sum t. sum + (t - mean)\<^sup>2) ts 0 / real (length ts);
                stdDev = sqrt variance;
                calculatedTimeout = mean + 2 * stdDev;
                boundedTimeout = max (minTimeout m) (min calculatedTimeout (maxTimeout m))
            in real_of_int (round boundedTimeout))"

definition getTimeout :: "timeout_manager \<Rightarrow> string \<Rightarrow> real" where
  "getTimeout m endpoint = calculateTimeout m endpoint"

text \<open>
  The timeout as the specification words it: the mean plus twice the population standard
  deviation, clamped to the interval from 3000 to 30000 and rounded to the nearest
  integer.
\<close>

definition mean_spec :: "real list \<Rightarrow> real" where
  "mean_spec L = sum_list L / real (length L)"

definition stddev_spec :: "real list \<Rightarrow> real" where
  "stddev_spec L = sqrt (sum_list (map (\<lambda>t. (t - mean_spec L)\<^sup>2) L) / real (length L))"

definition clamp_spec :: "real \<Rightarrow> real \<Rightarrow> real \<Rightarrow> real" where
  "clamp_spec x lo hi = (if x < lo then lo else if hi < x then hi else x)"

definition timeoutFor_spec :: "real list \<Rightarrow> real" where
  "timeoutFor_spec L =
     real_of_int (round (clamp_spec (mean_spec L + 2 * stddev_spec L) 3000 30000))"

record endpoint_stats =
  stat_count :: nat
  stat_mean :: int
  stat_stdDev :: int
  stat_min :: real
  stat_max :: real
  stat_timeout :: real

definition getStats :: "timeout_manager \<Rightarrow> string \<Rightarrow> endpoint_stats option" where
  "getStats m endpoint =
     (case history m endpoint of
        None \<Rightarrow> None
      | Some ts \<Rightarrow>
          if length ts = 0 then None
          else
            let mean = reduce (\<lambda>sum t. sum + t) ts 0 / real (length ts);
                variance = reduce (\<lambda>sum t. sum + (t - mean)\<^sup>2) ts 0 / real (length ts);
                stdDev = sqrt variance
            in Some \<lparr>stat_count = length ts,
                     stat_mean = round mean,
                     stat_stdDev = round stdDev,
                     stat_min = Min (set ts),
                     stat_max = Max (set ts),
                     stat_timeout = calculateTimeout m endpoint\<rparr>)"

text \<open>
  Example states: a manager built with no options that has recorded the five latencies of
  the documentation's worked example, one that has recorded three latencies only, and a
  manager configured with a default timeout of one second.
\<close>

definition five_samples :: "real list" where
  "five_samples = [3000, 3200, 2800, 3100, 3000]"

definition learned_manager :: timeout_manager where
  "learned_manager =
     foldl (\<lambda>m t. recordResponseTime ''api.openai.com'' t m)
       (new_AdaptiveTimeoutManager no_timeout_options) five_samples"

definition three_samples_manager :: timeout_manager where
  "three_samples_manager =
     foldl (\<lambda>m t. recordResponseTime ''api.openai.com'' t m)
       (new_AdaptiveTimeoutManager no_timeout_options) [20000, 25000, 29000]"

definition short_default_manager :: timeout_manager where
  "short_default_manager =
     new_AdaptiveTimeoutManager (no_timeout_options\<lparr>opt_defaultTimeout := Some 1000\<rparr>)"

section \<open>Two-stage image analysis (service worker: analyzeImage, determineStatus, buildFinalResult)\<close>

text \<open>
  The result objects of the hash check and of the image check carry a risk score, the
  per-category scores (an object, here an association list), a source tag and the match
  flag.
\<close>

record analysis_result =
  riskScore :: real
  detailedScores :: "(string \<times> real) list"
  categories :: "(string \<times> real) list"
  source :: string
  matched :: bool

record thresholds =
  safeMax :: real
  cautionMax :: real

record final_result =
  res_status :: string
  res_riskScore :: real
  res_categories :: "(string \<times> real) list"
  res_primary :: "analysis_result option"
  res_secondary :: "analysis_result option"
  res_source :: string
  res_timestamp :: nat

definition determineStatus :: "thresholds \<Rightarrow> real \<Rightarrow> string" where
  "determineStatus currentThresholds score =
     (if score < safeMax currentThresholds then ''safe''
      else if score < cautionMax currentThresholds then ''caution''
      else ''danger'')"

text \<open>
  \<open>secondary || primary\<close> picks the secondary result unless it is null;
  \<open>x?.f || d\<close> is \<open>d\<close> when \<open>x\<close> is null or the field is falsy (zero, the empty string).
\<close>

definition buildFinalResult ::
  "analysis_result option \<Rightarrow> analysis_result option \<Rightarrow> string \<Rightarrow> nat \<Rightarrow> final_result" where
  "buildFinalResult primary secondary status now =
     (let mainResult = (case secondary of Some s \<Rightarrow> Some s | None \<Rightarrow> primary)
      in \<lparr>res_status = status,
          res_riskScore = or_default (map_option riskScore mainResult) 0,
          res_categories = (case mainResult of None \<Rightarrow> [] | Some r \<Rightarrow> categories r),
          res_primary = primary,
          res_secondary = secondary,
          res_source =
            (case mainResult of None \<Rightarrow> ''unknown''
             | Some r \<Rightarrow> if source r = [] then ''unknown'' else source r),
          res_timestamp = now\<rparr>)"

definition zero_categories :: "(string \<times> real) list" where
  "zero_categories =
     [(''gore'', 0), (''violence'', 0), (''death'', 0), (''disturbing'', 0), (''insects'', 0),
      (''medical'', 0), (''shock'', 0), (''animal_cruelty'', 0), (''nsfw_porn'', 0),
      (''nsfw_sexy'', 0)]"

definition safeFallbackResult :: analysis_result where
  "safeFallbackResult =
     \<lparr>riskScore = 0, detailedScores = zero_categories, categories = zero_categories,
      source = ''hash-check-failed'', matched = False\<rparr>"

text \<open>
  The collaborators \<open>analyzeImage\<close> awaits are given by their outcomes: the hash stage
  \<open>analyzeImageWithHash\<close>, the reporter id lookup \<open>getOrCreateReporterId\<close>, the encoder
  \<open>imageUrlToBase64\<close> and the image check \<open>nsfwServer.check\<close>.  Each either throws
  (\<open>Inl\<close>) or returns (\<open>Inr\<close>); a returned result object may be null.  The function
  returns, next to its result, the collaborators it called, in order.
\<close>

datatype backend_call = HashCheck | ReporterId | ImageEncode | DeepAnalysis

record pipeline_env =
  analyzeImageWithHash :: "string \<Rightarrow> js_error + analysis_result option"
  getOrCreateReporterId :: "js_error + string"
  imageUrlToBase64 :: "string \<Rightarrow> js_error + string"
  nsfwServer_check :: "string \<Rightarrow> string \<Rightarrow> js_error + analysis_result option"
  date_now :: nat

definition analyzeImage ::
  "thresholds \<Rightarrow> pipeline_env \<Rightarrow> string \<Rightarrow> final_result \<times> backend_call list" where
  "analyzeImage currentThresholds env imageUrl =
     (let primaryResult =
            (case analyzeImageWithHash env imageUrl of Inl error \<Rightarrow> None | Inr r \<Rightarrow> r)
      in case primaryResult of
           Some primary \<Rightarrow>
             (let status = determineStatus currentThresholds (riskScore primary);
                  fromPrimary = buildFinalResult (Some primary) None status (date_now env)
              in if status = ''safe'' then (fromPrimary, [HashCheck])
                 else if status = ''caution'' \<or> status = ''danger'' then
                   (case getOrCreateReporterId env of
                      Inl error \<Rightarrow> (fromPrimary, [HashCheck, ReporterId])
                    | Inr reporterId \<Rightarrow>
                        (case imageUrlToBase64 env imageUrl of
                           Inl error \<Rightarrow> (fromPrimary, [HashCheck, ReporterId, ImageEncode])
                         | Inr imageBase64 \<Rightarrow>
                             (case nsfwServer_check env imageBase64 reporterId of
                                Inl error \<Rightarrow>
                                  (fromPrimary, [HashCheck, ReporterId, ImageEncode, DeepAnalysis])
                              | Inr None \<Rightarrow>
                                  (fromPrimary, [HashCheck, ReporterId, ImageEncode, DeepAnalysis])
                              | Inr (Some secondary) \<Rightarrow>
                                  (let finalStatus =
                                         determineStatus currentThresholds (riskScore secondary)
                                   in (buildFinalResult (Some primary) (Some secondary)
                                         finalStatus (date_now env),
                                       [HashCheck, ReporterId, ImageEncode, DeepAnalysis])))))
                 else (fromPrimary, [HashCheck]))
         | None \<Rightarrow>
             (buildFinalResult (Some safeFallbackResult) None ''safe'' (date_now env),
              [HashCheck]))"

text \<open>Example inputs: the thresholds and scores of the specification's scenario.\<close>

definition example_thresholds :: thresholds where
  "example_thresholds = \<lparr>safeMax = 0.3, cautionMax = 0.6\<rparr>"

definition scored :: "real \<Rightarrow> string \<Rightarrow> analysis_result" where
  "scored r src =
     \<lparr>riskScore = r, detailedScores = zero_categories, categories = zero_categories,
      source = src, matched = (r \<noteq> 0)\<rparr>"

definition example_env :: "real \<Rightarrow> (js_error + string) \<Rightarrow> pipeline_env" where
  "example_env hashScore encoded =
     \<lparr>analyzeImageWithHash = (\<lambda>url. Inr (Some (scored hashScore ''hash-check''))),
      getOrCreateReporterId = Inr ''nerd-reporter'',
      imageUrlToBase64 = (\<lambda>url. encoded),
      nsfwServer_check = (\<lambda>image reporter. Inr (Some (scored 0.8 ''nsfw-server-check''))),
      date_now = 1707900000000\<rparr>"

definition failing_hash_env :: pipeline_env where
  "failing_hash_env =
     \<lparr>analyzeImageWithHash = (\<lambda>url. Inl (JsError ''Error'' ''Unauthorized'')),
      getOrCreateReporterId = Inr ''nerd-reporter'',
      imageUrlToBase64 = (\<lambda>url. Inr ''base64''),
      nsfwServer_check = (\<lambda>image reporter. Inr (Some (scored 0.8 ''nsfw-server-check''))),
      date_now = 1707900000000\<rparr>"

section \<open>ErrorRecoveryManager (src/background/ErrorRecoveryManager.js)\<close>

text \<open>
  Strings are byte lists (UTF-8).  \<open>toLowerCase\<close> is modelled on the ASCII letters, and
  \<open>includes\<close> (here \<open>includes_str\<close>) is the search for a contiguous substring.  The human-readable \<open>message\<close>
  texts of the results and the stack traces kept in the history are not part of the
  model; the fields the control flow reads are.
\<close>

definition lower_char :: "char \<Rightarrow> char" where
  "lower_char c =
     (let n = (of_char c :: nat) in if 65 \<le> n \<and> n \<le> 90 then char_of (n + 32) else c)"

definition toLowerCase :: "string \<Rightarrow> string" where
  "toLowerCase s = map lower_char s"

fun includes_str :: "string \<Rightarrow> string \<Rightarrow> bool" where
  "includes_str [] sub = (sub = [])"
| "includes_str (c # cs) sub = (take (length sub) (c # cs) = sub \<or> includes_str cs sub)"

definition timeout_korean :: string where
  "timeout_korean =
     [CHR 0xEC, CHR 0x8B, CHR 0x9C, CHR 0xEA, CHR 0xB0, CHR 0x84, CHR 0xEC, CHR 0x9D,
      CHR 0xB4, CHR 0x20, CHR 0xEC, CHR 0xB4, CHR 0x88, CHR 0xEA, CHR 0xB3, CHR 0xBC]"

definition classifyError :: "js_error \<Rightarrow> string" where
  "classifyError error =
     (let message = toLowerCase (error_message error);
          name = toLowerCase (error_name error)
      in if name = ''typeerror'' \<and> includes_str message ''fetch'' then ''NetworkError''
         else if includes_str message ''timeout'' \<or> includes_str message timeout_korean
           then ''TimeoutError''
         else if includes_str message ''401'' \<or> includes_str message ''403''
                 \<or> includes_str message ''api key'' \<or> includes_str message ''unauthorized''
           then ''ApiKeyError''
         else if includes_str name ''idb'' \<or> includes_str message ''indexeddb''
                 \<or> includes_str message ''database''
           then ''IndexedDBError''
         else if includes_str message ''memory'' \<or> includes_str message ''out of''
           then ''OutOfMemoryError''
         else if includes_str message ''service worker'' \<or> includes_str message ''worker''
           then ''ServiceWorkerError''
         else if includes_str message ''429'' \<or> includes_str message ''rate limit''
           then ''RateLimitError''
         else ''UnknownError'')"

text \<open>
  The cache manager handed over in the context is seen through the outcomes of the two
  methods the strategies call on it: \<open>getAnalysisResult\<close>, and \<open>smartCleanup\<close> when the
  object has such a function.  \<open>window.kasFreeDB\<close> is absent, or its \<open>initialize\<close>
  succeeds or throws.
\<close>

record cache_handle =
  handle_getAnalysisResult :: "string \<Rightarrow> js_error + final_result option"
  handle_smartCleanup :: "(js_error + nat) option"

record recovery_context =
  postUrl :: "string option"
  cacheManager :: "cache_handle option"

record recovery_env =
  window_kasFreeDB :: "(js_error + unit) option"

record strategy_result =
  action :: string
  data :: "final_result option"
  suggestion :: "string option"

type_synonym strategy =
  "recovery_env \<Rightarrow> js_error \<Rightarrow> recovery_context \<Rightarrow> js_error + strategy_result"

record recovery_result =
  success :: bool
  rr_action :: string
  rr_data :: "final_result option"
  rr_suggestion :: "string option"
  rr_error :: "js_error option"

record error_record =
  rec_timestamp :: nat
  rec_type :: string
  rec_message :: string
  rec_postUrl :: "string option"
  rec_hasCache :: bool

record recovery_manager =
  maxRetries :: nat
  retryDelay :: nat
  errorCounts :: "(string \<times> nat) list"
  recoveryStrategies :: "string \<rightharpoonup> strategy"
  errorHistory :: "error_record list"
  maxHistorySize :: nat

definition just :: "string \<Rightarrow> strategy_result" where
  "just a = \<lparr>action = a, data = None, suggestion = None\<rparr>"

definition networkStrategy :: strategy where
  "networkStrategy env error context = Inr (just ''retry'')"

definition timeoutStrategy :: strategy where
  "timeoutStrategy env error context =
     (case (postUrl context, cacheManager context) of
        (Some url, Some cm) \<Rightarrow>
          if url = [] then Inr (just ''fail'')
          else (case handle_getAnalysisResult cm url of
                  Inl thrown \<Rightarrow> Inl thrown
                | Inr (Some cached) \<Rightarrow>
                    Inr \<lparr>action = ''fallback'', data = Some cached, suggestion = None\<rparr>
                | Inr None \<Rightarrow> Inr (just ''fail''))
      | _ \<Rightarrow> Inr (just ''fail''))"

definition indexedDBStrategy :: strategy where
  "indexedDBStrategy env error context =
     (case window_kasFreeDB env of
        Some (Inr initialized) \<Rightarrow> Inr (just ''retry'')
      | Some (Inl reinitError) \<Rightarrow> Inr (just ''fail'')
      | None \<Rightarrow> Inr (just ''fail''))"

definition apiKeyStrategy :: strategy where
  "apiKeyStrategy env error context =
     Inr \<lparr>action = ''fallback'', data = None, suggestion = Some ''tryNextApi''\<rparr>"

definition outOfMemoryStrategy :: strategy where
  "outOfMemoryStrategy env error context =
     (case cacheManager context of
        Some cm \<Rightarrow>
          (case handle_smartCleanup cm of
             Some (Inr deleted) \<Rightarrow> Inr (just ''retry'')
           | Some (Inl thrown) \<Rightarrow> Inl thrown
           | None \<Rightarrow> Inr (just ''fail''))
      | None \<Rightarrow> Inr (just ''fail''))"

definition serviceWorkerStrategy :: strategy where
  "serviceWorkerStrategy env error context = Inr (just ''restart'')"

definition registerStrategy :: "string \<Rightarrow> strategy \<Rightarrow> recovery_manager \<Rightarrow> recovery_manager" where
  "registerStrategy errorType s m = m\<lparr>recoveryStrategies := (recoveryStrategies m)(errorType \<mapsto> s)\<rparr>"

definition registerDefaultStrategies :: "recovery_manager \<Rightarrow> recovery_manager" where
  "registerDefaultStrategies m =
     registerStrategy ''ServiceWorkerError'' serviceWorkerStrategy
       (registerStrategy ''OutOfMemoryError'' outOfMemoryStrategy
         (registerStrategy ''ApiKeyError'' apiKeyStrategy
           (registerStrategy ''IndexedDBError'' indexedDBStrategy
             (registerStrategy ''TimeoutError'' timeoutStrategy
               (registerStrategy ''NetworkError'' networkStrategy m)))))"

record recovery_options =
  opt_maxRetries :: "nat option"
  opt_retryDelay :: "nat option"

definition new_ErrorRecoveryManager :: "recovery_options \<Rightarrow> recovery_manager" where
  "new_ErrorRecoveryManager options =
     registerDefaultStrategies
       \<lparr>maxRetries = or_default (opt_maxRetries options) 3,
        retryDelay = or_default (opt_retryDelay options) 1000,
        errorCounts = [],
        recoveryStrategies = Map.empty,
        errorHistory = [],
        maxHistorySize = 100\<rparr>"

definition recordError ::
  "js_error \<Rightarrow> string \<Rightarrow> recovery_context \<Rightarrow> nat \<Rightarrow> recovery_manager \<Rightarrow> recovery_manager" where
  "recordError error errorType context now m =
     (let record = \<lparr>rec_timestamp = now, rec_type = errorType,
                     rec_message = error_message error,
                     rec_postUrl = postUrl context,
                     rec_hasCache = (cacheManager context \<noteq> None)\<rparr>;
          pushed = errorHistory m @ [record]
      in m\<lparr>errorHistory := (if length pushed > maxHistorySize m then tl pushed else pushed)\<rparr>)"

definition errorKey_of :: "js_error \<Rightarrow> recovery_context \<Rightarrow> string" where
  "errorKey_of error context =
     classifyError error @ ''_'' @
       (case postUrl context of None \<Rightarrow> ''global'' | Some u \<Rightarrow> if u = [] then ''global'' else u)"

definition count_of :: "recovery_manager \<Rightarrow> string \<Rightarrow> nat" where
  "count_of m errorKey = (case map_of (errorCounts m) errorKey of None \<Rightarrow> 0 | Some c \<Rightarrow> c)"

definition handleError ::
  "recovery_env \<Rightarrow> js_error \<Rightarrow> recovery_context \<Rightarrow> nat \<Rightarrow> recovery_manager
     \<Rightarrow> recovery_result \<times> recovery_manager" where
  "handleError env error context now m =
     (let errorType = classifyError error;
          errorKey = errorKey_of error context;
          count = count_of m errorKey + 1;
          m1 = m\<lparr>errorCounts := AList.update errorKey count (errorCounts m)\<rparr>;
          m2 = recordError error errorType context now m1
      in if count > maxRetries m2 then
           (\<lparr>success = False, rr_action = ''fail'', rr_data = None, rr_suggestion = None,
             rr_error = Some error\<rparr>, m2)
         else
           (case recoveryStrategies m2 errorType of
              Some s \<Rightarrow>
                (case s env error context of
                   Inr result \<Rightarrow>
                     (\<lparr>success = (action result \<noteq> ''fail''), rr_action = action result,
                       rr_data = data result, rr_suggestion = suggestion result,
                       rr_error = None\<rparr>,
                      if action result = ''retry'' \<or> action result = ''fallback''
                      then m2\<lparr>errorCounts := AList.delete errorKey (errorCounts m2)\<rparr>
                      else m2)
                 | Inl recoveryError \<Rightarrow>
                     (\<lparr>success = False, rr_action = ''fail'', rr_data = None,
                       rr_suggestion = None, rr_error = Some recoveryError\<rparr>, m2))
            | None \<Rightarrow>
                (\<lparr>success = False, rr_action = ''retry'', rr_data = None,
                  rr_suggestion = None, rr_error = None\<rparr>, m2)))"

definition resetErrorCounts :: "string option \<Rightarrow> recovery_manager \<Rightarrow> recovery_manager" where
  "resetErrorCounts key m =
     (case key of
        None \<Rightarrow> m\<lparr>errorCounts := []\<rparr>
      | Some k \<Rightarrow>
          if k = [] then m\<lparr>errorCounts := []\<rparr>
          else m\<lparr>errorCounts := AList.delete k (errorCounts m)\<rparr>)"

record health_status =
  status :: string
  totalErrors :: nat
  recentErrors :: nat
  errorRate :: real
  activeRetries :: nat

definition getHealthStatus :: "recovery_manager \<Rightarrow> health_status" where
  "getHealthStatus m =
     (let recent = drop (length (errorHistory m) - 10) (errorHistory m);
          recentErrorRate = real (length recent) / 10;
          status0 = ''healthy'';
          status1 = (if recentErrorRate > 0.5 then ''degraded'' else status0);
          status2 = (if recentErrorRate > 0.8 then ''critical'' else status1)
      in \<lparr>status = status2,
          totalErrors = length (errorHistory m),
          recentErrors = length recent,
          errorRate = recentErrorRate,
          activeRetries = length (errorCounts m)\<rparr>)"

text \<open>
  The operations that change a manager, and runs of them.  A call of \<open>handleError\<close> is
  given by the environment, the error, the context and the clock reading.
\<close>

type_synonym error_call = "recovery_env \<times> js_error \<times> recovery_context \<times> nat"

fun handleErrors :: "recovery_manager \<Rightarrow> error_call list \<Rightarrow> recovery_manager" where
  "handleErrors m [] = m"
| "handleErrors m ((env, error, context, now) # calls) =
     handleErrors (snd (handleError env error context now m)) calls"

datatype manager_op =
    HandleError recovery_env js_error recovery_context nat
  | RegisterStrategy string strategy
  | ResetErrorCounts "string option"

fun apply_manager_op :: "recovery_manager \<Rightarrow> manager_op \<Rightarrow> recovery_manager" where
  "apply_manager_op m (HandleError env error context now) =
     snd (handleError env error context now m)"
| "apply_manager_op m (RegisterStrategy errorType s) = registerStrategy errorType s m"
| "apply_manager_op m (ResetErrorCounts key) = resetErrorCounts key m"

definition run_manager :: "recovery_manager \<Rightarrow> manager_op list \<Rightarrow> recovery_manager" where
  "run_manager m ops = foldl apply_manager_op m ops"

fun is_HandleError :: "manager_op \<Rightarrow> bool" where
  "is_HandleError (HandleError env error context now) = True"
| "is_HandleError other = False"

text \<open>
  Whether a call of \<open>handleError\<close> would clear the retry counter of its key: its strategy
  returns the action retry or fallback.
\<close>

definition clears_counter :: "recovery_manager \<Rightarrow> error_call \<Rightarrow> bool" where
  "clears_counter m call =
     (case call of (env, error, context, now) \<Rightarrow>
        (case recoveryStrategies m (classifyError error) of
           None \<Rightarrow> False
         | Some s \<Rightarrow>
             (case s env error context of
                Inl thrown \<Rightarrow> False
              | Inr result \<Rightarrow> action result = ''retry'' \<or> action result = ''fallback'')))"

definition call_key :: "error_call \<Rightarrow> string" where
  "call_key call = (case call of (env, error, context, now) \<Rightarrow> errorKey_of error context)"

definition call_result :: "recovery_manager \<Rightarrow> error_call \<Rightarrow> recovery_result" where
  "call_result m call =
     (case call of (env, error, context, now) \<Rightarrow> fst (handleError env error context now m))"

text \<open>Example calls: a timeout with a cached result at hand, and an unclassified error.\<close>

definition no_recovery_options :: recovery_options where
  "no_recovery_options = \<lparr>opt_maxRetries = None, opt_retryDelay = None\<rparr>"

definition cached_result :: final_result where
  "cached_result =
     buildFinalResult (Some (scored 0.8 ''hash-check'')) None ''danger'' 1707900000000"

definition caching_handle :: cache_handle where
  "caching_handle =
     \<lparr>handle_getAnalysisResult = (\<lambda>url. Inr (Some cached_result)),
      handle_smartCleanup = Some (Inr 0)\<rparr>"

definition timeout_call :: error_call where
  "timeout_call =
     (\<lparr>window_kasFreeDB = None\<rparr>,
      JsError ''Error'' ''Request timeout'',
      \<lparr>postUrl = Some ''https://gall.dcinside.com/board/view/?no=1'',
       cacheManager = Some caching_handle\<rparr>,
      1707900000000)"

definition unknown_call :: error_call where
  "unknown_call =
     (\<lparr>window_kasFreeDB = None\<rparr>,
      JsError ''Error'' ''boom'',
      \<lparr>postUrl = None, cacheManager = None\<rparr>,
      1707900000000)"

definition unknown_op :: manager_op where
  "unknown_op =
     HandleError \<lparr>window_kasFreeDB = None\<rparr> (JsError ''Error'' ''boom'')
       \<lparr>postUrl = None, cacheManager = None\<rparr> 1707900000000"

definition nine_errors_manager :: recovery_manager where
  "nine_errors_manager =
     run_manager (new_ErrorRecoveryManager no_recovery_options) (replicate 9 unknown_op)"

section \<open>AdvancedCacheManager (smartCleanup)\<close>

text \<open>
  The two JavaScript Maps \<open>accessCount\<close> and \<open>lastAccess\<close> are association lists in
  insertion order (a Map iterates in that order and holds each key once).  Counts and
  timestamps are integers.  \<open>Array.prototype.sort\<close> with the comparator
  \<open>a.score - b.score\<close> is a stable ascending sort by score, as is \<open>sort_key\<close>.
  \<open>Math.ceil(totalCount * 0.8)\<close> is taken over the reals.

  The global \<open>kasFreeDB\<close> is the IndexedDB wrapper of \<open>utils/db.js\<close>; \<open>db_analysis\<close>
  holds the keys of its analysis store.
\<close>

record cache_entry =
  e_url :: string
  e_count :: int
  e_age :: int
  e_score :: int

record indexed_db =
  db_analysis :: "string list"

record cache_state =
  accessCount :: "(string \<times> int) list"
  lastAccess :: "(string \<times> int) list"
  cleanupInterval :: nat
  kasFreeDB :: "indexed_db option"

definition score_entry :: "int \<Rightarrow> (string \<times> int) list \<Rightarrow> string \<times> int \<Rightarrow> cache_entry" where
  "score_entry now accessed kv =
     (case kv of (url, count) \<Rightarrow>
        let lastTime = (case map_of accessed url of None \<Rightarrow> 0 | Some t \<Rightarrow> t);
            age = now - lastTime;
            frequencyScore = count * 1000;
            recencyScore = max 0 (86400000 - age);
            score = frequencyScore + recencyScore
        in \<lparr>e_url = url, e_count = count, e_age = age, e_score = score\<rparr>)"

text \<open>
  \<open>deleteCachedResult\<close> calls \<open>window.kasFreeDB.deleteAnalysisResult\<close> inside a try
  block when the global exists.  The class \<open>KasFreeDB\<close> defines no such method, so the
  call throws a TypeError, which the catch logs: the store is left as it is.
\<close>

definition deleteCachedResult :: "string \<Rightarrow> cache_state \<Rightarrow> cache_state" where
  "deleteCachedResult url c =
     (case kasFreeDB c of
        None \<Rightarrow> c
      | Some db \<Rightarrow> c)"

definition delete_entry :: "cache_state \<Rightarrow> cache_entry \<Rightarrow> cache_state" where
  "delete_entry c entry =
     (let c1 = deleteCachedResult (e_url entry) c
      in c1\<lparr>accessCount := AList.delete (e_url entry) (accessCount c1),
            lastAccess := AList.delete (e_url entry) (lastAccess c1)\<rparr>)"

definition keepCount_of :: "nat \<Rightarrow> int" where
  "keepCount_of totalCount = max 10 \<lceil>real totalCount * 0.8\<rceil>"

definition smartCleanup :: "int \<Rightarrow> cache_state \<Rightarrow> int \<times> cache_state" where
  "smartCleanup now c =
     (let entries = map (score_entry now (lastAccess c)) (accessCount c)
      in if length entries = 0 then (0, c)
         else
           let sorted = sort_key e_score entries;
               totalCount = length sorted;
               keepCount = keepCount_of totalCount;
               deleteCount = int totalCount - keepCount
           in if deleteCount \<le> 0 then (0, c)
              else
                let toDelete = take (nat deleteCount) sorted
                in (deleteCount, foldl delete_entry c toDelete))"

text \<open>The score the sweep gives to a tracked key, and the tracked keys.\<close>

definition score_at :: "int \<Rightarrow> cache_state \<Rightarrow> string \<times> int \<Rightarrow> int" where
  "score_at now c kv = e_score (score_entry now (lastAccess c) kv)"

definition tracked :: "cache_state \<Rightarrow> string set" where
  "tracked c = fst ` set (accessCount c)"

text \<open>
  Example caches: \<open>n\<close> entries with the keys \<open>0, \<dots>, n - 1\<close> written in unary, entry
  \<open>i\<close> accessed \<open>i + 1\<close> times, all last accessed at time zero.
\<close>

definition unary_key :: "nat \<Rightarrow> string" where
  "unary_key i = replicate i CHR ''x''"

definition cache_of_size :: "nat \<Rightarrow> cache_state" where
  "cache_of_size n =
     \<lparr>accessCount = map (\<lambda>i. (unary_key i, int i + 1)) [0..<n],
      lastAccess = map (\<lambda>i. (unary_key i, 0)) [0..<n],
      cleanupInterval = 3600000,
      kasFreeDB = Some \<lparr>db_analysis = map unary_key [0..<n]\<rparr>\<rparr>"

section \<open>ApiClient (fetchWithTimeout, fetchWithRetry, calculateDelay)\<close>

text \<open>
  \<open>maxRetries\<close> is a number of retries, a natural number.  A URL is given by what
  \<open>new URL(url).hostname\<close> yields: the host name, or nothing when the URL does not parse.
  A call of \<open>fetch\<close> either resolves with a response after some time or rejects with an
  error; an abort by the timeout timer is the rejection named AbortError.  The history is
  loaded from and saved to \<open>chrome.storage\<close> on the side; that persistence is not part
  of the model.
\<close>

record api_options =
  opt_timeout :: "real option"
  opt_client_maxRetries :: "nat option"
  opt_baseDelay :: "real option"
  opt_enableAdaptiveTimeout :: "bool option"

record api_client =
  timeout :: real
  client_maxRetries :: nat
  baseDelay :: real
  enableAdaptiveTimeout :: bool
  timeoutManager :: "timeout_manager option"

definition new_ApiClient :: "api_options \<Rightarrow> api_client" where
  "new_ApiClient options =
     (let enabled = (opt_enableAdaptiveTimeout options \<noteq> Some False)
      in \<lparr>timeout = or_default (opt_timeout options) 30000,
          client_maxRetries = or_default (opt_client_maxRetries options) 3,
          baseDelay = or_default (opt_baseDelay options) 1000,
          enableAdaptiveTimeout = enabled,
          timeoutManager =
            (if enabled
             then Some (new_AdaptiveTimeoutManager
                    \<lparr>opt_minTimeout = Some 3000, opt_maxTimeout = Some 30000,
                     opt_defaultTimeout = Some 15000, opt_historySize = None\<rparr>)
             else None)\<rparr>)"

record http_response =
  resp_status :: nat
  resp_ok :: bool
  resp_body :: string

datatype fetch_outcome =
    Resolved http_response real
  | Rejected js_error

definition extractEndpoint :: "string option \<Rightarrow> string" where
  "extractEndpoint url = (case url of Some hostname \<Rightarrow> hostname | None \<Rightarrow> ''unknown'')"

function decimal :: "nat \<Rightarrow> string" where
  "decimal n = (if n < 10 then [char_of (48 + n)] else decimal (n div 10) @ [char_of (48 + n mod 10)])"
  by pat_completeness auto
termination
  by (relation "measure (\<lambda>n. n)") auto

declare decimal.simps [simp del]

definition show_int :: "int \<Rightarrow> string" where
  "show_int i = (if i < 0 then CHR ''-'' # decimal (nat (- i)) else decimal (nat i))"

definition timeout_message :: "real \<Rightarrow> string" where
  "timeout_message dynamicTimeout =
     [CHR 0xEC, CHR 0x9A, CHR 0x94, CHR 0xEC, CHR 0xB2, CHR 0xAD, CHR 0x20, CHR 0xEC,
      CHR 0x8B, CHR 0x9C, CHR 0xEA, CHR 0xB0, CHR 0x84, CHR 0xEC, CHR 0x9D, CHR 0xB4,
      CHR 0x20, CHR 0xEC, CHR 0xB4, CHR 0x88, CHR 0xEA, CHR 0xB3, CHR 0xBC, CHR 0xEB,
      CHR 0x90, CHR 0x98, CHR 0xEC, CHR 0x97, CHR 0x88, CHR 0xEC, CHR 0x8A, CHR 0xB5,
      CHR 0xEB, CHR 0x8B, CHR 0x88, CHR 0xEB, CHR 0x8B, CHR 0xA4, CHR 0x20, CHR 0x28]
     @ show_int (round dynamicTimeout) @
     [CHR 0x6D, CHR 0x73, CHR 0x29, CHR 0x2E, CHR 0x20, CHR 0xEC, CHR 0x9E, CHR 0xA0,
      CHR 0xEC, CHR 0x8B, CHR 0x9C, CHR 0x20, CHR 0xED, CHR 0x9B, CHR 0x84, CHR 0x20,
      CHR 0xEB, CHR 0x8B, CHR 0xA4, CHR 0xEC, CHR 0x8B, CHR 0x9C, CHR 0x20, CHR 0xEC,
      CHR 0x8B, CHR 0x9C, CHR 0xEB, CHR 0x8F, CHR 0x84, CHR 0xED, CHR 0x95, CHR 0xB4,
      CHR 0xEC, CHR 0xA3, CHR 0xBC, CHR 0xEC, CHR 0x84, CHR 0xB8, CHR 0xEC, CHR 0x9A,
      CHR 0x94, CHR 0x2E]"

definition unknown_error_message :: string where
  "unknown_error_message =
     [CHR 0xEC, CHR 0x95, CHR 0x8C, CHR 0x20, CHR 0xEC, CHR 0x88, CHR 0x98, CHR 0x20,
      CHR 0xEC, CHR 0x97, CHR 0x86, CHR 0xEB, CHR 0x8A, CHR 0x94, CHR 0x20, CHR 0xEC,
      CHR 0x98, CHR 0xA4, CHR 0xEB, CHR 0xA5, CHR 0x98, CHR 0xEA, CHR 0xB0, CHR 0x80,
      CHR 0x20, CHR 0xEB, CHR 0xB0, CHR 0x9C, CHR 0xEC, CHR 0x83, CHR 0x9D, CHR 0xED,
      CHR 0x96, CHR 0x88, CHR 0xEC, CHR 0x8A, CHR 0xB5, CHR 0xEB, CHR 0x8B, CHR 0x88,
      CHR 0xEB, CHR 0x8B, CHR 0xA4, CHR 0x2E]"

definition fetchWithTimeout ::
  "api_client \<Rightarrow> string option \<Rightarrow> fetch_outcome \<Rightarrow> (js_error + http_response) \<times> api_client" where
  "fetchWithTimeout c url outcome =
     (let endpoint = (case timeoutManager c of Some tm \<Rightarrow> extractEndpoint url | None \<Rightarrow> ''default'');
          dynamicTimeout =
            (case timeoutManager c of Some tm \<Rightarrow> getTimeout tm endpoint | None \<Rightarrow> timeout c)
      in case outcome of
           Resolved response responseTime \<Rightarrow>
             (Inr response,
              (case timeoutManager c of
                 Some tm \<Rightarrow>
                   if resp_ok response
                   then c\<lparr>timeoutManager := Some (recordResponseTime endpoint responseTime tm)\<rparr>
                   else c
               | None \<Rightarrow> c))
         | Rejected error \<Rightarrow>
             (if error_name error = ''AbortError''
              then Inl (ApiError (timeout_message dynamicTimeout) 408 True)
              else Inl error,
              c))"

definition isRetryableStatus :: "nat \<Rightarrow> bool" where
  "isRetryableStatus s = (s \<ge> 500 \<or> s = 408 \<or> s = 429)"

text \<open>\<open>Math.random()\<close> is a parameter: a number from zero up to, not including, one.\<close>

definition calculateDelay :: "api_client \<Rightarrow> nat \<Rightarrow> real \<Rightarrow> real" where
  "calculateDelay c attempt random =
     (let exponentialDelay = 2 ^ attempt * baseDelay c;
          jitter = random * 1000
      in min (exponentialDelay + jitter) 10000)"

fun retryable_ApiError :: "js_error \<Rightarrow> bool" where
  "retryable_ApiError (ApiError message statusCode retryable) = retryable"
| "retryable_ApiError (JsError name message) = False"

text \<open>
  The retry loop.  \<open>fetches k\<close> is what the network does at attempt \<open>k\<close>, \<open>randoms k\<close>
  the random number drawn for the delay after it.  The result holds the response
  returned or the error thrown, the client afterwards, the delays waited and the number of
  attempts made.
\<close>

record retry_result =
  fr_outcome :: "js_error + http_response"
  fr_client :: api_client
  fr_delays :: "real list"
  fr_attempts :: nat

lemma fetchWithTimeout_maxRetries:
  "fetchWithTimeout c url outcome = (r, c') \<Longrightarrow> client_maxRetries c' = client_maxRetries c"
  by (auto simp add: fetchWithTimeout_def Let_def split: fetch_outcome.splits option.splits if_splits)

function fetchWithRetry_loop ::
  "api_client \<Rightarrow> string option \<Rightarrow> (nat \<Rightarrow> fetch_outcome) \<Rightarrow> (nat \<Rightarrow> real) \<Rightarrow> nat
     \<Rightarrow> js_error option \<Rightarrow> real list \<Rightarrow> retry_result" where
  "fetchWithRetry_loop c url fetches randoms attempt lastError delays =
     (if attempt \<le> client_maxRetries c then
        (case fetchWithTimeout c url (fetches attempt) of
           (Inr response, c') \<Rightarrow>
             if isRetryableStatus (resp_status response) \<and> attempt < client_maxRetries c
             then fetchWithRetry_loop c' url fetches randoms (attempt + 1) lastError
                    (delays @ [calculateDelay c attempt (randoms attempt)])
             else \<lparr>fr_outcome = Inr response, fr_client = c', fr_delays = delays,
                   fr_attempts = attempt + 1\<rparr>
         | (Inl error, c') \<Rightarrow>
             if retryable_ApiError error \<and> attempt < client_maxRetries c
             then fetchWithRetry_loop c' url fetches randoms (attempt + 1) (Some error)
                    (delays @ [calculateDelay c attempt (randoms attempt)])
             else if error_name error = ''TypeError'' \<and> attempt < client_maxRetries c
             then fetchWithRetry_loop c' url fetches randoms (attempt + 1) (Some error)
                    (delays @ [calculateDelay c attempt (randoms attempt)])
             else \<lparr>fr_outcome = Inl error, fr_client = c', fr_delays = delays,
                   fr_attempts = attempt + 1\<rparr>)
      else
        \<lparr>fr_outcome =
           Inl (case lastError of Some error \<Rightarrow> error
                | None \<Rightarrow> JsError ''Error'' unknown_error_message),
         fr_client = c, fr_delays = delays, fr_attempts = attempt\<rparr>)"
  by pat_completeness auto
termination
  by (relation "measure (\<lambda>(c, url, fetches, randoms, attempt, lastError, delays).
        Suc (client_maxRetries c) - attempt)")
     (auto dest: fetchWithTimeout_maxRetries [OF sym])

declare fetchWithRetry_loop.simps [simp del]

definition fetchWithRetry ::
  "api_client \<Rightarrow> string option \<Rightarrow> (nat \<Rightarrow> fetch_outcome) \<Rightarrow> (nat \<Rightarrow> real) \<Rightarrow> retry_result" where
  "fetchWithRetry c url fetches randoms = fetchWithRetry_loop c url fetches randoms 0 None []"

text \<open>Example clients and networks.\<close>

definition no_api_options :: api_options where
  "no_api_options =
     \<lparr>opt_timeout = None, opt_client_maxRetries = None, opt_baseDelay = None,
      opt_enableAdaptiveTimeout = None\<rparr>"

definition responding :: "nat \<Rightarrow> nat \<Rightarrow> fetch_outcome" where
  "responding s attempt =
     Resolved \<lparr>resp_status = s, resp_ok = (200 \<le> s \<and> s \<le> 299), resp_body = []\<rparr> 120"

definition aborting :: "nat \<Rightarrow> fetch_outcome" where
  "aborting attempt = Rejected (JsError ''AbortError'' ''The user aborted a request.'')"

definition unreachable :: "nat \<Rightarrow> fetch_outcome" where
  "unreachable attempt = Rejected (JsError ''TypeError'' ''Failed to fetch'')"

definition half :: "nat \<Rightarrow> real" where
  "half attempt = 0.5"

section \<open>Properties of the adaptive timeout\<close>

lemma reduce_add: "reduce (\<lambda>sum t. sum + f t) ts a = a + sum_list (map f ts)"
  unfolding reduce_def by (induction ts arbitrary: a) simp_all

lemma reduce_sum: "reduce (\<lambda>sum t. sum + t) ts a = a + sum_list ts"
  using reduce_add [of "\<lambda>t. t" ts a] by simp

lemma max_min_clamp: "lo \<le> hi \<Longrightarrow> max lo (min x hi) = clamp_spec x lo hi"
  by (simp add: clamp_spec_def max_def min_def)

lemma calculateTimeout_enough:
  assumes "history m endpoint = Some L" and "5 \<le> length L"
  shows "calculateTimeout m endpoint =
           real_of_int (round (max (minTimeout m)
             (min (mean_spec L + 2 * stddev_spec L) (maxTimeout m))))"
  using assms
  by (simp add: calculateTimeout_def Let_def reduce_add reduce_sum mean_spec_def stddev_spec_def)

lemma learned_manager_history:
  "history learned_manager ''api.openai.com'' = Some five_samples"
  by (simp add: learned_manager_def five_samples_def recordResponseTime_def
      new_AdaptiveTimeoutManager_def no_timeout_options_def or_default_def Let_def)

lemma learned_manager_bounds:
  "minTimeout learned_manager = 3000" "maxTimeout learned_manager = 30000"
  "defaultTimeout learned_manager = 15000"
  by (simp_all add: learned_manager_def five_samples_def recordResponseTime_def
      new_AdaptiveTimeoutManager_def no_timeout_options_def or_default_def Let_def)

text \<open>
  Claim C3.  For an endpoint whose history holds at least five samples \<open>L\<close>, and with the
  bounds 3000 and 30000 of the default configuration, \<open>calculateTimeout\<close> returns the
  mean of \<open>L\<close> plus twice its population standard deviation, clamped to the interval from
  3000 to 30000 and rounded to the nearest integer.
\<close>

theorem calculateTimeout_refines_spec:
  assumes "history m endpoint = Some L" and "5 \<le> length L"
    and "minTimeout m = 3000" and "maxTimeout m = 30000"
  shows "calculateTimeout m endpoint = timeoutFor_spec L"
  using assms
  by (simp add: calculateTimeout_enough timeoutFor_spec_def max_min_clamp)

theorem calculateTimeout_refines_spec_witness:
  "history learned_manager ''api.openai.com'' = Some five_samples \<and> 5 \<le> length five_samples
   \<and> minTimeout learned_manager = 3000 \<and> maxTimeout learned_manager = 30000
   \<and> calculateTimeout learned_manager ''api.openai.com'' = timeoutFor_spec five_samples"
  using calculateTimeout_refines_spec [of learned_manager "''api.openai.com''" five_samples]
    learned_manager_history learned_manager_bounds
  by (simp add: five_samples_def)

lemma five_mean: "mean_spec five_samples = 3020"
  by (simp add: mean_spec_def five_samples_def)

lemma five_stddev: "stddev_spec five_samples = sqrt 17600"
  by (simp add: stddev_spec_def five_mean) (simp add: five_samples_def)

lemma sqrt_17600_lower: "132.6 < sqrt 17600"
  by (rule real_less_rsqrt) (simp add: power2_eq_square)

lemma sqrt_17600_upper: "sqrt 17600 < 132.7"
  by (rule real_less_lsqrt) (simp_all add: power2_eq_square)

lemma five_timeout: "calculateTimeout learned_manager ''api.openai.com'' = 3285"
proof -
  have "calculateTimeout learned_manager ''api.openai.com''
          = real_of_int (round (max 3000 (min (3020 + 2 * sqrt 17600) 30000)))"
    using calculateTimeout_enough [OF learned_manager_history]
    by (simp add: five_samples_def [symmetric] five_mean five_stddev learned_manager_bounds)
       (simp add: five_samples_def)
  moreover have "max 3000 (min (3020 + 2 * sqrt 17600) 30000) = 3020 + 2 * sqrt 17600"
    using sqrt_17600_lower sqrt_17600_upper by (simp add: max_def min_def)
  moreover have "round (3020 + 2 * sqrt 17600) = 3285"
    using sqrt_17600_lower sqrt_17600_upper by (simp add: round_def) linarith
  ultimately show ?thesis by simp
qed

lemma reduce_five_mean:
  "reduce (\<lambda>sum t. sum + t) five_samples 0 / real (length five_samples) = 3020"
  by (simp add: reduce_sum five_samples_def)

lemma reduce_five_variance:
  "reduce (\<lambda>sum t. sum + (t - 3020)\<^sup>2) five_samples 0 / real (length five_samples) = 17600"
  by (simp add: reduce_add five_samples_def)

lemma round_sqrt_17600: "round (sqrt 17600) = 133"
  using sqrt_17600_lower sqrt_17600_upper by (simp add: round_def) linarith

text \<open>
  Claim C7 (as amended).  With the default configuration and the recorded history
  3000, 3200, 2800, 3100, 3000 the mean is 3020, the variance is 17600, the population
  standard deviation is about 132.7 (reported rounded as 133 by \<open>getStats\<close>), and
  \<open>calculateTimeout\<close> returns 3285.
\<close>

theorem calculateTimeout_example:
  "calculateTimeout learned_manager ''api.openai.com'' = 3285
   \<and> map_option stat_mean (getStats learned_manager ''api.openai.com'') = Some 3020
   \<and> map_option stat_stdDev (getStats learned_manager ''api.openai.com'') = Some 133
   \<and> map_option stat_timeout (getStats learned_manager ''api.openai.com'') = Some 3285"
proof -
  have len: "length five_samples \<noteq> 0" by (simp add: five_samples_def)
  show ?thesis
    using len
    by (simp add: five_timeout getStats_def learned_manager_history Let_def
        reduce_five_mean reduce_five_variance round_sqrt_17600)
qed

text \<open>
  Claim C7 as stated gives a timeout of 3289 for this history; the function returns
  another value.
\<close>

theorem calculateTimeout_example_counterexample:
  "\<not> (calculateTimeout learned_manager ''api.openai.com'' = 3289)"
  by (simp add: five_timeout)

lemma round_between_ints:
  fixes x lo hi :: real
  assumes "lo \<in> \<int>" "hi \<in> \<int>" "lo \<le> x" "x \<le> hi"
  shows "lo \<le> real_of_int (round x) \<and> real_of_int (round x) \<le> hi"
proof -
  from assms(1) obtain a where a: "lo = of_int a" by (auto elim: Ints_cases)
  from assms(2) obtain b where b: "hi = of_int b" by (auto elim: Ints_cases)
  have "round (of_int a :: real) \<le> round x" using assms(3) a by (intro round_mono) simp
  moreover have "round x \<le> round (of_int b :: real)" using assms(4) b by (intro round_mono) simp
  ultimately show ?thesis by (simp add: a b)
qed

text \<open>
  Claim C8 (as amended).  When the configured default lies between the configured minimum
  and maximum, and the minimum and maximum are whole numbers of milliseconds, the value
  of \<open>calculateTimeout\<close> lies between the minimum and the maximum for every history,
  on the default path as well as on the statistical path.  On the default path (no
  history for the endpoint, or fewer than five samples) the value is the configured
  default.  The function is total: it has no error case.
\<close>

theorem calculateTimeout_bounded:
  assumes "minTimeout m \<le> defaultTimeout m" and "defaultTimeout m \<le> maxTimeout m"
    and "minTimeout m \<in> \<int>" and "maxTimeout m \<in> \<int>"
  shows "minTimeout m \<le> calculateTimeout m endpoint
         \<and> calculateTimeout m endpoint \<le> maxTimeout m
         \<and> ((\<forall>ts. history m endpoint = Some ts \<longrightarrow> length ts < 5)
               \<longrightarrow> calculateTimeout m endpoint = defaultTimeout m)"
proof (cases "history m endpoint")
  case None
  with assms show ?thesis by (simp add: calculateTimeout_def)
next
  case (Some L)
  show ?thesis
  proof (cases "length L < 5")
    case True
    with Some assms show ?thesis by (simp add: calculateTimeout_def)
  next
    case False
    define x where "x = max (minTimeout m) (min (mean_spec L + 2 * stddev_spec L) (maxTimeout m))"
    have le: "minTimeout m \<le> maxTimeout m" using assms by simp
    have "minTimeout m \<le> x" "x \<le> maxTimeout m" using le by (simp_all add: x_def)
    then have "minTimeout m \<le> real_of_int (round x) \<and> real_of_int (round x) \<le> maxTimeout m"
      using round_between_ints assms by blast
    moreover have "calculateTimeout m endpoint = real_of_int (round x)"
      using calculateTimeout_enough [OF Some] False by (simp add: x_def)
    ultimately show ?thesis using Some False by simp
  qed
qed

lemma three_samples_manager_fields:
  "minTimeout three_samples_manager = 3000" "maxTimeout three_samples_manager = 30000"
  "defaultTimeout three_samples_manager = 15000"
  "history three_samples_manager ''api.openai.com'' = Some [20000, 25000, 29000]"
  "history three_samples_manager ''api.anthropic.com'' = None"
  by (simp_all add: three_samples_manager_def recordResponseTime_def
      new_AdaptiveTimeoutManager_def no_timeout_options_def or_default_def Let_def)

theorem calculateTimeout_bounded_witness:
  "minTimeout learned_manager \<le> defaultTimeout learned_manager
   \<and> defaultTimeout learned_manager \<le> maxTimeout learned_manager
   \<and> minTimeout learned_manager \<in> \<int> \<and> maxTimeout learned_manager \<in> \<int>
   \<and> minTimeout learned_manager \<le> calculateTimeout learned_manager ''api.openai.com''
   \<and> calculateTimeout learned_manager ''api.openai.com'' \<le> maxTimeout learned_manager
   \<and> history three_samples_manager ''api.openai.com'' = Some [20000, 25000, 29000]
   \<and> calculateTimeout three_samples_manager ''api.openai.com'' = 15000
   \<and> history three_samples_manager ''api.anthropic.com'' = None
   \<and> calculateTimeout three_samples_manager ''api.anthropic.com'' = 15000"
  using calculateTimeout_bounded [of learned_manager "''api.openai.com''"]
    calculateTimeout_bounded [of three_samples_manager "''api.openai.com''"]
    calculateTimeout_bounded [of three_samples_manager "''api.anthropic.com''"]
  by (simp add: learned_manager_bounds three_samples_manager_fields)

text \<open>
  Claim C8 as stated quantifies over every configuration.  A manager configured with a
  default timeout of 1000 and no recorded samples returns 1000, below its minimum 3000:
  the default path returns the configured default unclamped.
\<close>

theorem calculateTimeout_bounded_counterexample:
  "\<not> (minTimeout short_default_manager \<le> calculateTimeout short_default_manager ''api.openai.com''
      \<and> calculateTimeout short_default_manager ''api.openai.com'' \<le> maxTimeout short_default_manager)"
  by (simp add: short_default_manager_def new_AdaptiveTimeoutManager_def no_timeout_options_def
      or_default_def calculateTimeout_def)

section \<open>Properties of the two-stage analysis\<close>

lemma determineStatus_cases:
  "determineStatus th x = ''safe'' \<or> determineStatus th x = ''caution''
   \<or> determineStatus th x = ''danger''"
  by (simp add: determineStatus_def)

lemma determineStatus_safe_iff: "determineStatus th x = ''safe'' \<longleftrightarrow> x < safeMax th"
  by (simp add: determineStatus_def)

lemma buildFinalResult_secondary:
  "res_riskScore (buildFinalResult p (Some s) st now) = riskScore s"
  "res_status (buildFinalResult p q st now) = st"
  "res_secondary (buildFinalResult p q st now) = q"
  "res_categories (buildFinalResult p (Some s) st now) = categories s"
  by (simp_all add: buildFinalResult_def or_default_def Let_def)

text \<open>
  Claim C1 (as amended).  When the hash stage returns a result: if its risk score is
  below \<open>safeMax\<close>, the returned status is safe and the image check of the server is
  never called; if the score is at or above \<open>safeMax\<close> and the two preparatory steps
  (reporter id, base64 encoding of the image) succeed, the image check is called, and
  when it returns a result the final risk score, status and categories are those of that
  result, not of the hash result.
\<close>

theorem analyzeImage_two_stage:
  assumes "analyzeImageWithHash env imageUrl = Inr (Some primary)"
  shows "(riskScore primary < safeMax th \<longrightarrow>
            res_status (fst (analyzeImage th env imageUrl)) = ''safe''
            \<and> DeepAnalysis \<notin> set (snd (analyzeImage th env imageUrl)))
       \<and> (safeMax th \<le> riskScore primary \<longrightarrow>
            getOrCreateReporterId env = Inr reporterId \<longrightarrow>
            imageUrlToBase64 env imageUrl = Inr imageBase64 \<longrightarrow>
              DeepAnalysis \<in> set (snd (analyzeImage th env imageUrl))
              \<and> (nsfwServer_check env imageBase64 reporterId = Inr (Some secondary) \<longrightarrow>
                   res_riskScore (fst (analyzeImage th env imageUrl)) = riskScore secondary
                   \<and> res_status (fst (analyzeImage th env imageUrl))
                       = determineStatus th (riskScore secondary)
                   \<and> res_categories (fst (analyzeImage th env imageUrl)) = categories secondary
                   \<and> res_secondary (fst (analyzeImage th env imageUrl)) = Some secondary))"
proof (intro conjI impI)
  assume "riskScore primary < safeMax th"
  then have st: "determineStatus th (riskScore primary) = ''safe''"
    by (simp add: determineStatus_safe_iff)
  show "res_status (fst (analyzeImage th env imageUrl)) = ''safe''"
    using assms st by (simp add: analyzeImage_def Let_def buildFinalResult_secondary)
  show "DeepAnalysis \<notin> set (snd (analyzeImage th env imageUrl))"
    using assms st by (simp add: analyzeImage_def Let_def)
next
  assume hi: "safeMax th \<le> riskScore primary"
    and rid: "getOrCreateReporterId env = Inr reporterId"
    and enc: "imageUrlToBase64 env imageUrl = Inr imageBase64"
  from hi have ns: "determineStatus th (riskScore primary) \<noteq> ''safe''"
    by (simp add: determineStatus_safe_iff)
  with determineStatus_cases [of th "riskScore primary"]
  have cd: "determineStatus th (riskScore primary) = ''caution''
            \<or> determineStatus th (riskScore primary) = ''danger''"
    by blast
  show "DeepAnalysis \<in> set (snd (analyzeImage th env imageUrl))"
    using assms ns cd rid enc
    by (auto simp add: analyzeImage_def Let_def split: sum.splits option.splits)
  {
    assume deep: "nsfwServer_check env imageBase64 reporterId = Inr (Some secondary)"
    have eq: "fst (analyzeImage th env imageUrl)
                = buildFinalResult (Some primary) (Some secondary)
                    (determineStatus th (riskScore secondary)) (date_now env)"
      using assms ns cd rid enc deep by (auto simp add: analyzeImage_def Let_def)
    show "res_riskScore (fst (analyzeImage th env imageUrl)) = riskScore secondary"
      by (simp add: eq buildFinalResult_secondary)
    show "res_status (fst (analyzeImage th env imageUrl))
            = determineStatus th (riskScore secondary)"
      by (simp add: eq buildFinalResult_secondary)
    show "res_categories (fst (analyzeImage th env imageUrl)) = categories secondary"
      by (simp add: eq buildFinalResult_secondary)
    show "res_secondary (fst (analyzeImage th env imageUrl)) = Some secondary"
      by (simp add: eq buildFinalResult_secondary)
  }
qed

theorem analyzeImage_two_stage_witness:
  "res_status (fst (analyzeImage example_thresholds (example_env 0.15 (Inr ''base64'')) ''img'')) = ''safe''
   \<and> DeepAnalysis \<notin> set (snd (analyzeImage example_thresholds (example_env 0.15 (Inr ''base64'')) ''img''))
   \<and> DeepAnalysis \<in> set (snd (analyzeImage example_thresholds (example_env 0.45 (Inr ''base64'')) ''img''))
   \<and> res_riskScore (fst (analyzeImage example_thresholds (example_env 0.45 (Inr ''base64'')) ''img'')) = 0.8
   \<and> res_status (fst (analyzeImage example_thresholds (example_env 0.45 (Inr ''base64'')) ''img'')) = ''danger''"
  using
    analyzeImage_two_stage [of "example_env 0.15 (Inr ''base64'')" "''img''"
      "scored 0.15 ''hash-check''" example_thresholds]
    analyzeImage_two_stage [of "example_env 0.45 (Inr ''base64'')" "''img''"
      "scored 0.45 ''hash-check''" example_thresholds "''nerd-reporter''" "''base64''"
      "scored 0.8 ''nsfw-server-check''"]
  by (simp add: example_env_def example_thresholds_def scored_def determineStatus_def)

text \<open>
  Claim C1 as stated says the deep analysis is called whenever the hash score is at or
  above \<open>safeMax\<close>.  When \<open>imageUrlToBase64\<close> throws, the try block is left before
  \<open>nsfwServer.check\<close> is reached and the hash result stands.
\<close>

theorem analyzeImage_two_stage_counterexample:
  "analyzeImageWithHash (example_env 0.45 (Inl (JsError ''Error'' ''no base64''))) ''img''
     = Inr (Some (scored 0.45 ''hash-check''))
   \<and> safeMax example_thresholds \<le> riskScore (scored 0.45 ''hash-check'')
   \<and> DeepAnalysis \<notin> set (snd (analyzeImage example_thresholds
         (example_env 0.45 (Inl (JsError ''Error'' ''no base64''))) ''img''))"
  by (simp add: analyzeImage_def example_env_def example_thresholds_def scored_def
      determineStatus_def Let_def)

text \<open>
  Claim C2.  When the hash stage throws, \<open>analyzeImage\<close> returns the status safe with
  risk score zero and all ten category scores zero, and calls nothing else.
\<close>

theorem analyzeImage_hash_failure_safe:
  assumes "analyzeImageWithHash env imageUrl = Inl error"
  shows "res_status (fst (analyzeImage th env imageUrl)) = ''safe''
       \<and> res_riskScore (fst (analyzeImage th env imageUrl)) = 0
       \<and> res_categories (fst (analyzeImage th env imageUrl)) = zero_categories
       \<and> (\<forall>c \<in> set (res_categories (fst (analyzeImage th env imageUrl))). snd c = 0)
       \<and> snd (analyzeImage th env imageUrl) = [HashCheck]"
  using assms
  by (simp add: analyzeImage_def buildFinalResult_def safeFallbackResult_def or_default_def
      zero_categories_def)

theorem analyzeImage_hash_failure_safe_witness:
  "analyzeImageWithHash failing_hash_env ''img'' = Inl (JsError ''Error'' ''Unauthorized'')
   \<and> res_status (fst (analyzeImage example_thresholds failing_hash_env ''img'')) = ''safe''
   \<and> res_riskScore (fst (analyzeImage example_thresholds failing_hash_env ''img'')) = 0
   \<and> res_categories (fst (analyzeImage example_thresholds failing_hash_env ''img'')) = zero_categories"
  using analyzeImage_hash_failure_safe [of failing_hash_env "''img''"
      "JsError ''Error'' ''Unauthorized''" example_thresholds]
  by (simp add: failing_hash_env_def)

section \<open>Properties of the error recovery manager\<close>

lemma classify_timeout: "classifyError (JsError ''Error'' ''Request timeout'') = ''TimeoutError''"
  by (simp add: classifyError_def toLowerCase_def lower_char_def Let_def)

lemma classify_unknown: "classifyError (JsError ''Error'' ''boom'') = ''UnknownError''"
  by (simp add: classifyError_def toLowerCase_def lower_char_def Let_def timeout_korean_def)

lemma recordError_fields:
  "maxRetries (recordError e t c n m) = maxRetries m"
  "errorCounts (recordError e t c n m) = errorCounts m"
  "recoveryStrategies (recordError e t c n m) = recoveryStrategies m"
  "maxHistorySize (recordError e t c n m) = maxHistorySize m"
  by (simp_all add: recordError_def Let_def)

lemma handleError_keeps:
  "maxRetries (snd (handleError env e c n m)) = maxRetries m"
  "recoveryStrategies (snd (handleError env e c n m)) = recoveryStrategies m"
  by (simp_all add: handleError_def Let_def recordError_fields split: option.splits sum.splits)

lemma count_of_update: "count_of (m\<lparr>errorCounts := AList.update k v (errorCounts m)\<rparr>) k = v"
  by (simp add: count_of_def update_conv')

lemma handleError_counts:
  assumes "\<not> clears_counter m (env, e, c, n)"
  shows "count_of (snd (handleError env e c n m)) (errorKey_of e c)
           = count_of m (errorKey_of e c) + 1"
  using assms
  by (auto simp add: handleError_def clears_counter_def Let_def recordError_fields
      count_of_def update_conv' split: option.splits sum.splits)

lemma handleError_over_limit:
  assumes "maxRetries m \<le> count_of m (errorKey_of e c)"
  shows "rr_action (fst (handleError env e c n m)) = ''fail''"
  using assms by (simp add: handleError_def Let_def recordError_fields)

lemma clears_counter_cong:
  "recoveryStrategies m' = recoveryStrategies m \<Longrightarrow> clears_counter m' call = clears_counter m call"
  by (simp add: clears_counter_def)

lemma handleErrors_counts:
  assumes "\<forall>call \<in> set calls. call_key call = k \<and> \<not> clears_counter m call"
  shows "count_of (handleErrors m calls) k = count_of m k + length calls
         \<and> maxRetries (handleErrors m calls) = maxRetries m"
  using assms
proof (induction calls arbitrary: m)
  case Nil
  then show ?case by simp
next
  case (Cons call calls)
  obtain env e c n where call: "call = (env, e, c, n)" by (cases call) auto
  let ?m' = "snd (handleError env e c n m)"
  from Cons.prems call have k: "errorKey_of e c = k" and nc: "\<not> clears_counter m (env, e, c, n)"
    by (simp_all add: call_key_def)
  have rest: "\<forall>x \<in> set calls. call_key x = k \<and> \<not> clears_counter ?m' x"
    using Cons.prems clears_counter_cong [OF handleError_keeps(2)] by simp
  have "count_of ?m' k = count_of m k + 1"
    using handleError_counts [OF nc] k by simp
  with Cons.IH [OF rest] show ?case
    by (simp add: call handleError_keeps)
qed

text \<open>
  Claim C4 (as amended).  Take any run of calls of \<open>handleError\<close> for one error key
  (error type and context), none of which clears the retry counter: the type has no
  registered strategy, or its strategy returns an action other than retry and fallback,
  or throws.  After at least \<open>maxRetries\<close> such calls, the next call for that key returns
  the action fail.  A strategy that reports a fallback resets the counter, so the limit
  does not reach across such calls.
\<close>

theorem handleError_fails_after_maxRetries:
  assumes "\<forall>call \<in> set calls. call_key call = call_key next_call \<and> \<not> clears_counter m call"
    and "maxRetries m \<le> length calls"
  shows "rr_action (call_result (handleErrors m calls) next_call) = ''fail''
         \<and> \<not> success (call_result (handleErrors m calls) next_call)"
proof -
  obtain env e c n where nc: "next_call = (env, e, c, n)" by (cases next_call) auto
  from handleErrors_counts [OF assms(1)] assms(2)
  have "maxRetries (handleErrors m calls) \<le> count_of (handleErrors m calls) (errorKey_of e c)"
    by (simp add: nc call_key_def)
  then show ?thesis
    by (simp add: call_result_def nc handleError_def Let_def recordError_fields)
qed

lemma new_manager_fields:
  "maxRetries (new_ErrorRecoveryManager no_recovery_options) = 3"
  "recoveryStrategies (new_ErrorRecoveryManager no_recovery_options) ''UnknownError'' = None"
  "recoveryStrategies (new_ErrorRecoveryManager no_recovery_options) ''TimeoutError''
     = Some timeoutStrategy"
  "errorCounts (new_ErrorRecoveryManager no_recovery_options) = []"
  "errorHistory (new_ErrorRecoveryManager no_recovery_options) = []"
  "maxHistorySize (new_ErrorRecoveryManager no_recovery_options) = 100"
  by (simp_all add: new_ErrorRecoveryManager_def no_recovery_options_def or_default_def
      registerDefaultStrategies_def registerStrategy_def)

lemma unknown_call_no_clear:
  "\<not> clears_counter (new_ErrorRecoveryManager no_recovery_options) unknown_call"
  by (simp add: clears_counter_def unknown_call_def classify_unknown new_manager_fields)

theorem handleError_fails_after_maxRetries_witness:
  "\<not> clears_counter (new_ErrorRecoveryManager no_recovery_options) unknown_call
   \<and> maxRetries (new_ErrorRecoveryManager no_recovery_options) \<le> length (replicate 3 unknown_call)
   \<and> rr_action (call_result (handleErrors (new_ErrorRecoveryManager no_recovery_options)
         (replicate 3 unknown_call)) unknown_call) = ''fail''"
  using handleError_fails_after_maxRetries
    [of "replicate 3 unknown_call" unknown_call "new_ErrorRecoveryManager no_recovery_options"]
    unknown_call_no_clear
  by (simp add: new_manager_fields)

lemma timeout_call_step:
  assumes "recoveryStrategies m ''TimeoutError'' = Some timeoutStrategy"
    and "maxRetries m = 3" and "errorCounts m = []"
  shows "rr_action (call_result m timeout_call) = ''fallback''"
    and "rr_data (call_result m timeout_call) = Some cached_result"
    and "recoveryStrategies (handleErrors m [timeout_call]) ''TimeoutError'' = Some timeoutStrategy"
    and "maxRetries (handleErrors m [timeout_call]) = 3"
    and "errorCounts (handleErrors m [timeout_call]) = []"
  using assms
  by (simp_all add: call_result_def timeout_call_def handleError_def Let_def recordError_fields
      classify_timeout timeoutStrategy_def caching_handle_def count_of_def errorKey_of_def)


lemma handleErrors_Cons: "handleErrors m (call # calls) = handleErrors (handleErrors m [call]) calls"
  by (cases call) simp

text \<open>
  Claim C4 as stated speaks of every error type and context.  With the default strategies
  and \<open>maxRetries = 3\<close>, a timeout error for a post whose result is in the cache is
  answered by a fallback every time: each fallback deletes the counter, and the fifth
  call in a row still returns fallback.
\<close>

theorem handleError_limit_counterexample:
  "maxRetries (new_ErrorRecoveryManager no_recovery_options) = 3
   \<and> rr_action (call_result
        (handleErrors (new_ErrorRecoveryManager no_recovery_options)
           [timeout_call, timeout_call, timeout_call, timeout_call])
        timeout_call) = ''fallback''
   \<and> rr_action (call_result
        (handleErrors (new_ErrorRecoveryManager no_recovery_options)
           [timeout_call, timeout_call, timeout_call, timeout_call])
        timeout_call) \<noteq> ''fail''"
proof -
  let ?m0 = "new_ErrorRecoveryManager no_recovery_options"
  let ?m1 = "handleErrors ?m0 [timeout_call]"
  let ?m2 = "handleErrors ?m1 [timeout_call]"
  let ?m3 = "handleErrors ?m2 [timeout_call]"
  let ?m4 = "handleErrors ?m3 [timeout_call]"
  note s0 = new_manager_fields(3) new_manager_fields(1) new_manager_fields(4)
  note s1 = timeout_call_step(3-5) [OF s0]
  note s2 = timeout_call_step(3-5) [OF s1]
  note s3 = timeout_call_step(3-5) [OF s2]
  note s4 = timeout_call_step(3-5) [OF s3]
  have run: "handleErrors ?m0 [timeout_call, timeout_call, timeout_call, timeout_call] = ?m4"
    by (simp only: handleErrors_Cons [of _ timeout_call "_ # _"])
  have "rr_action (call_result ?m4 timeout_call) = ''fallback''"
    by (rule timeout_call_step(1) [OF s4])
  with run show ?thesis by (simp add: new_manager_fields)
qed

lemma length_recent: "length (drop (length h - 10) h) = min (length h) 10"
  by simp

lemma getHealthStatus_rate:
  "errorRate (getHealthStatus m) = real (min (length (errorHistory m)) 10) / 10"
  by (simp add: getHealthStatus_def Let_def min_def)

lemma getHealthStatus_status:
  "status (getHealthStatus m) =
     (if length (errorHistory m) \<le> 5 then ''healthy''
      else if length (errorHistory m) \<le> 8 then ''degraded'' else ''critical'')"
  by (auto simp add: getHealthStatus_def Let_def)

lemma recordError_length:
  "length (errorHistory (recordError e t c n m)) =
     (if length (errorHistory m) + 1 > maxHistorySize m then length (errorHistory m)
      else length (errorHistory m) + 1)"
  by (simp add: recordError_def Let_def)

lemma handleError_history:
  "errorHistory (snd (handleError env e c n m))
     = errorHistory (recordError e (classifyError e) c n m)"
  "maxHistorySize (snd (handleError env e c n m)) = maxHistorySize m"
  by (simp_all add: handleError_def Let_def recordError_def split: option.splits sum.splits)

lemma apply_manager_op_length:
  "length (errorHistory m) \<le> length (errorHistory (apply_manager_op m op))"
  by (cases op)
     (simp_all add: handleError_history recordError_length registerStrategy_def
        resetErrorCounts_def split: option.splits)

lemma run_manager_length:
  "length (errorHistory m) \<le> length (errorHistory (run_manager m ops))"
  unfolding run_manager_def
proof (induction ops arbitrary: m)
  case Nil
  show ?case by simp
next
  case (Cons op ops)
  have "length (errorHistory m) \<le> length (errorHistory (apply_manager_op m op))"
    by (rule apply_manager_op_length)
  also have "\<dots> \<le> length (errorHistory (foldl apply_manager_op (apply_manager_op m op) ops))"
    by (rule Cons.IH)
  finally show ?case by simp
qed

lemma apply_manager_op_count:
  assumes "maxHistorySize m = 100" and "length (errorHistory m) \<le> 100"
  shows "maxHistorySize (apply_manager_op m op) = 100
         \<and> length (errorHistory (apply_manager_op m op))
             = min (length (errorHistory m) + (if is_HandleError op then 1 else 0)) 100"
  using assms
  by (cases op)
     (simp_all add: handleError_history recordError_length registerStrategy_def
        resetErrorCounts_def split: option.splits)

lemma run_manager_count:
  assumes "maxHistorySize m = 100" and "length (errorHistory m) \<le> 100"
  shows "length (errorHistory (run_manager m ops))
           = min (length (errorHistory m) + length (filter is_HandleError ops)) 100"
  using assms unfolding run_manager_def
proof (induction ops arbitrary: m)
  case Nil
  then show ?case by simp
next
  case (Cons op ops)
  from apply_manager_op_count [OF Cons.prems, of op]
  have a: "maxHistorySize (apply_manager_op m op) = 100"
    and b: "length (errorHistory (apply_manager_op m op))
             = min (length (errorHistory m) + (if is_HandleError op then 1 else 0)) 100"
    by simp_all
  from b have c: "length (errorHistory (apply_manager_op m op)) \<le> 100" by simp
  show ?case
    using Cons.IH [OF a c] b by (simp add: min_def)
qed

lemma new_manager_any_options:
  "errorHistory (new_ErrorRecoveryManager options) = []"
  "maxHistorySize (new_ErrorRecoveryManager options) = 100"
  by (simp_all add: new_ErrorRecoveryManager_def registerDefaultStrategies_def registerStrategy_def)

text \<open>
  Claim C10.  The health status is a function of the length of the error history: healthy
  up to five entries, degraded for six to eight, critical from nine on; the reported
  rate is the smaller of that length and ten, divided by ten.  No operation of the manager
  shortens the history, so a critical status stays critical after any run of operations;
  and a manager built by the constructor holds as many entries as errors were handled,
  up to one hundred.
\<close>

theorem getHealthStatus_depends_on_history_length:
  "status (getHealthStatus m) =
     (if length (errorHistory m) \<le> 5 then ''healthy''
      else if length (errorHistory m) \<le> 8 then ''degraded'' else ''critical'')
   \<and> errorRate (getHealthStatus m) = real (min (length (errorHistory m)) 10) / 10
   \<and> length (errorHistory m) \<le> length (errorHistory (run_manager m ops))
   \<and> (status (getHealthStatus m) = ''critical''
        \<longrightarrow> status (getHealthStatus (run_manager m ops)) = ''critical'')
   \<and> length (errorHistory (run_manager (new_ErrorRecoveryManager options) ops))
        = min (length (filter is_HandleError ops)) 100"
proof -
  have mono: "length (errorHistory m) \<le> length (errorHistory (run_manager m ops))"
    by (rule run_manager_length)
  have crit: "status (getHealthStatus m) = ''critical''
        \<longrightarrow> status (getHealthStatus (run_manager m ops)) = ''critical''"
    using mono by (simp add: getHealthStatus_status split: if_splits)
  have cnt: "length (errorHistory (run_manager (new_ErrorRecoveryManager options) ops))
        = min (length (filter is_HandleError ops)) 100"
    using run_manager_count [of "new_ErrorRecoveryManager options" ops]
    by (simp add: new_manager_any_options)
  show ?thesis
    using mono crit cnt getHealthStatus_status [of m] getHealthStatus_rate [of m] by simp
qed

theorem getHealthStatus_depends_on_history_length_witness:
  "length (errorHistory nine_errors_manager) = 9
   \<and> status (getHealthStatus nine_errors_manager) = ''critical''
   \<and> status (getHealthStatus (run_manager nine_errors_manager
        [ResetErrorCounts None, RegisterStrategy ''UnknownError'' networkStrategy, unknown_op]))
       = ''critical''"
proof -
  have len: "length (errorHistory nine_errors_manager) = 9"
    using getHealthStatus_depends_on_history_length
      [of nine_errors_manager "replicate 9 unknown_op" no_recovery_options]
    by (simp add: nine_errors_manager_def unknown_op_def)
  show ?thesis
    using len getHealthStatus_depends_on_history_length
      [of nine_errors_manager
          "[ResetErrorCounts None, RegisterStrategy ''UnknownError'' networkStrategy, unknown_op]"]
    by simp
qed

section \<open>Properties of the cache sweep\<close>

lemma delete_entry_fields:
  "accessCount (delete_entry c e) = AList.delete (e_url e) (accessCount c)"
  "lastAccess (delete_entry c e) = AList.delete (e_url e) (lastAccess c)"
  "kasFreeDB (delete_entry c e) = kasFreeDB c"
  by (simp_all add: delete_entry_def deleteCachedResult_def Let_def split: option.splits)

lemma foldl_delete_entry:
  "accessCount (foldl delete_entry c es) = filter (\<lambda>p. fst p \<notin> e_url ` set es) (accessCount c)
   \<and> lastAccess (foldl delete_entry c es) = filter (\<lambda>p. fst p \<notin> e_url ` set es) (lastAccess c)
   \<and> kasFreeDB (foldl delete_entry c es) = kasFreeDB c"
proof (induction es arbitrary: c)
  case Nil
  show ?case by simp
next
  case (Cons e es)
  have "AList.delete (e_url e) xs = filter (\<lambda>p. fst p \<noteq> e_url e) xs" for xs :: "(string \<times> int) list"
    by (induction xs) (auto simp add: AList.delete_eq)
  then show ?case
    using Cons.IH [of "delete_entry c e"]
    by (simp add: delete_entry_fields)
qed

lemma length_filter_keys:
  assumes "distinct (map fst xs)" and "S \<subseteq> fst ` set xs"
  shows "length (filter (\<lambda>p. fst p \<notin> S) xs) = length xs - card S"
proof -
  have "map fst (filter (\<lambda>p. fst p \<in> S) xs) = filter (\<lambda>k. k \<in> S) (map fst xs)"
    by (simp add: filter_map comp_def)
  moreover have "distinct (filter (\<lambda>k. k \<in> S) (map fst xs))"
    using assms(1) by simp
  moreover have "set (filter (\<lambda>k. k \<in> S) (map fst xs)) = S"
    using assms(2) by auto
  ultimately have "length (filter (\<lambda>p. fst p \<in> S) xs) = card S"
    by (metis distinct_card length_map)
  moreover have "length (filter (\<lambda>p. fst p \<in> S) xs) + length (filter (\<lambda>p. fst p \<notin> S) xs)
                   = length xs"
    using sum_length_filter_compl [of "\<lambda>p. fst p \<in> S" xs] by simp
  ultimately show ?thesis by simp
qed

lemma score_entry_url: "e_url (score_entry now la kv) = fst kv"
  by (cases kv) (simp add: score_entry_def Let_def)

lemma map_url_entries:
  "map e_url (map (score_entry now la) xs) = map fst xs"
  by (simp add: score_entry_url comp_def)

lemma distinct_map_sort_key:
  "distinct (map f (sort_key k ys)) = distinct (map f ys)"
  by (simp add: distinct_map)

lemma distinct_urls_sorted:
  assumes "distinct (map fst xs)"
  shows "distinct (map e_url (sort_key e_score (map (score_entry now la) xs)))"
  unfolding distinct_map_sort_key map_url_entries by (rule assms)

lemma keepCount_small: "n \<le> 10 \<Longrightarrow> int n - keepCount_of n \<le> 0"
  by (simp add: keepCount_of_def)

lemma ceiling_four_fifths: "\<lceil>real n * 0.8\<rceil> = (4 * int n + 4) div 5"
proof -
  have "real n * 0.8 = real_of_int (4 * int n) / real_of_int 5" by simp
  then have "\<lceil>real n * 0.8\<rceil> = - ((- (4 * int n)) div 5)"
    by (simp only: ceiling_divide_eq_div)
  also have "\<dots> = (4 * int n + 4) div 5" by presburger
  finally show ?thesis .
qed

lemma keepCount_le: "10 \<le> n \<Longrightarrow> keepCount_of n \<le> int n"
  unfolding keepCount_of_def ceiling_four_fifths by simp


lemma smartCleanup_unfold:
  "smartCleanup now c =
     (if int (length (accessCount c)) - keepCount_of (length (accessCount c)) \<le> 0 then (0, c)
      else (int (length (accessCount c)) - keepCount_of (length (accessCount c)),
            foldl delete_entry c
              (take (nat (int (length (accessCount c)) - keepCount_of (length (accessCount c))))
                 (sort_key e_score (map (score_entry now (lastAccess c)) (accessCount c))))))"
  by (simp add: smartCleanup_def Let_def keepCount_of_def)

lemma sorted_take_drop:
  assumes "sorted (map f ys)" and "x \<in> set (take d ys)" and "y \<in> set (drop d ys)"
  shows "f x \<le> f y"
proof -
  have "sorted (map f (take d ys) @ map f (drop d ys))"
    using assms(1) by (simp only: map_append [symmetric] append_take_drop_id)
  then show ?thesis
    using assms(2,3) by (auto simp add: sorted_append)
qed

lemma smartCleanup_no_eviction:
  assumes "length (accessCount c) \<le> 10"
  shows "smartCleanup now c = (0, c)"
  using keepCount_small [OF assms] by (simp add: smartCleanup_unfold)

lemma smartCleanup_eviction:
  fixes now :: int and c :: cache_state
  assumes dist: "distinct (map fst (accessCount c))" and big: "10 < length (accessCount c)"
  defines "sorted_entries \<equiv> sort_key e_score (map (score_entry now (lastAccess c)) (accessCount c))"
  defines "d \<equiv> nat (int (length (accessCount c)) - keepCount_of (length (accessCount c)))"
  shows "fst (smartCleanup now c) = int d"
    and "accessCount (snd (smartCleanup now c))
           = filter (\<lambda>p. fst p \<notin> e_url ` set (take d sorted_entries)) (accessCount c)"
    and "lastAccess (snd (smartCleanup now c))
           = filter (\<lambda>p. fst p \<notin> e_url ` set (take d sorted_entries)) (lastAccess c)"
    and "length (accessCount (snd (smartCleanup now c))) = nat (keepCount_of (length (accessCount c)))"
    and "0 < d" and "d \<le> length (accessCount c)"
proof -
  let ?N = "length (accessCount c)"
  have keep_lt: "keepCount_of ?N < int ?N"
    using big unfolding keepCount_of_def ceiling_four_fifths by simp
  have keep_pos: "0 \<le> keepCount_of ?N" by (simp add: keepCount_of_def)
  show dpos: "0 < d" using keep_lt by (simp add: d_def)
  show dle: "d \<le> ?N" using keep_pos by (simp add: d_def)
  have unf: "smartCleanup now c = (int d, foldl delete_entry c (take d sorted_entries))"
    using keep_lt by (simp add: smartCleanup_unfold d_def sorted_entries_def)
  show "fst (smartCleanup now c) = int d" by (simp add: unf)
  show ac: "accessCount (snd (smartCleanup now c))
           = filter (\<lambda>p. fst p \<notin> e_url ` set (take d sorted_entries)) (accessCount c)"
    by (simp add: unf foldl_delete_entry)
  show "lastAccess (snd (smartCleanup now c))
           = filter (\<lambda>p. fst p \<notin> e_url ` set (take d sorted_entries)) (lastAccess c)"
    by (simp add: unf foldl_delete_entry)
  have du: "distinct (map e_url sorted_entries)"
    unfolding sorted_entries_def by (rule distinct_urls_sorted [OF dist])
  have len: "length sorted_entries = ?N" by (simp add: sorted_entries_def)
  have "distinct (map e_url (take d sorted_entries))"
    using du by (simp add: take_map [symmetric])
  then have "card (set (map e_url (take d sorted_entries))) = length (map e_url (take d sorted_entries))"
    by (rule distinct_card)
  then have card: "card (e_url ` set (take d sorted_entries)) = d"
    using dle len by simp
  have sub: "e_url ` set (take d sorted_entries) \<subseteq> fst ` set (accessCount c)"
  proof
    fix k assume "k \<in> e_url ` set (take d sorted_entries)"
    then obtain e where "e \<in> set (take d sorted_entries)" and k: "k = e_url e" by auto
    then have "e \<in> set sorted_entries" by (auto dest: in_set_takeD)
    then have "e \<in> score_entry now (lastAccess c) ` set (accessCount c)"
      by (simp add: sorted_entries_def)
    then show "k \<in> fst ` set (accessCount c)"
      using k by (force simp add: score_entry_url)
  qed
  have "length (accessCount (snd (smartCleanup now c))) = ?N - d"
    using length_filter_keys [OF dist sub] by (simp add: ac card)
  then show "length (accessCount (snd (smartCleanup now c))) = nat (keepCount_of ?N)"
    using keep_lt keep_pos by (simp add: d_def)
qed


lemma filtered_key_evicted:
  "k \<in> fst ` set xs \<Longrightarrow> k \<notin> fst ` set (filter (\<lambda>p. fst p \<notin> U) xs) \<Longrightarrow> k \<in> U"
  by force

lemma surviving_key_not_evicted:
  "k \<in> fst ` set (filter (\<lambda>p. fst p \<notin> U) xs) \<Longrightarrow> k \<notin> U"
  by auto

lemma evicted_key_filtered:
  "k \<in> U \<Longrightarrow> k \<notin> fst ` set (filter (\<lambda>p. fst p \<notin> U) ys)"
  by auto

lemma smartCleanup_lowest:
  fixes now :: int and c :: cache_state
  assumes dist: "distinct (map fst (accessCount c))"
    and old: "old \<in> set (accessCount c)" "old \<notin> set (accessCount (snd (smartCleanup now c)))"
    and kept: "kept \<in> set (accessCount (snd (smartCleanup now c)))"
  shows "score_at now c old \<le> score_at now c kept"
proof (cases "length (accessCount c) \<le> 10")
  case True
  with old show ?thesis by (simp add: smartCleanup_no_eviction)
next
  case False
  then have big: "10 < length (accessCount c)" by simp
  define es where "es = sort_key e_score (map (score_entry now (lastAccess c)) (accessCount c))"
  define d where "d = nat (int (length (accessCount c)) - keepCount_of (length (accessCount c)))"
  have ac: "accessCount (snd (smartCleanup now c))
              = filter (\<lambda>p. fst p \<notin> e_url ` set (take d es)) (accessCount c)"
    unfolding es_def d_def by (rule smartCleanup_eviction(2) [OF dist big])
  let ?f = "score_entry now (lastAccess c)"
  have set_es: "set es = ?f ` set (accessCount c)" by (simp add: es_def)
  have srt: "sorted (map e_score es)" by (simp add: es_def)
  have inj: "p = q" if "p \<in> set (accessCount c)" "q \<in> set (accessCount c)" "fst p = fst q" for p q
    using dist that by (auto simp add: distinct_map dest: inj_onD)
  \<comment> \<open>the evicted entry is among the first \<open>d\<close> sorted entries\<close>
  from old ac have "fst old \<in> e_url ` set (take d es)" by simp
  then obtain e where e: "e \<in> set (take d es)" and eu: "e_url e = fst old" by force
  from e have "e \<in> set es" by (auto dest: in_set_takeD)
  then obtain p where p: "p \<in> set (accessCount c)" and ep: "e = ?f p" using set_es by auto
  from eu ep have "fst p = fst old" by (simp add: score_entry_url)
  with inj [OF p old(1)] have e_old: "e = ?f old" using ep by simp
  \<comment> \<open>the kept entry is among the others\<close>
  from kept ac have k_in: "kept \<in> set (accessCount c)" and k_out: "fst kept \<notin> e_url ` set (take d es)"
    by simp_all
  have "?f kept \<in> set es" using k_in set_es by simp
  moreover have "?f kept \<notin> set (take d es)"
    using k_out by (force simp add: score_entry_url)
  ultimately have "?f kept \<in> set (drop d es)"
    by (metis Un_iff append_take_drop_id set_append)
  from sorted_take_drop [OF srt e this] show ?thesis
    by (simp add: score_at_def e_old)
qed

text \<open>
  The sweep in memory, for every state.  Over \<open>N\<close> tracked entries (a Map, so the keys
  are distinct) it leaves the smaller of \<open>N\<close> and \<open>max(10, ceil(0.8 N))\<close> entries
  tracked and returns the number it evicted.  The surviving entries are entries of the old
  state, every evicted entry scores at most as much as every surviving one, an evicted
  key is removed from \<open>lastAccess\<close> as well, and a surviving key keeps its
  \<open>lastAccess\<close> entry.  The IndexedDB store is the same before and after.  For
  \<open>N = 100\<close> exactly 80 survive and 20 are evicted; for \<open>N \<le> 10\<close>, so for \<open>N = 5\<close>,
  nothing changes.
\<close>

theorem smartCleanup_retains:
  assumes "distinct (map fst (accessCount c))"
  shows "length (accessCount (snd (smartCleanup now c)))
           = min (length (accessCount c)) (nat (max 10 \<lceil>real (length (accessCount c)) * 0.8\<rceil>))
       \<and> fst (smartCleanup now c)
           = int (length (accessCount c)) - int (length (accessCount (snd (smartCleanup now c))))
       \<and> set (accessCount (snd (smartCleanup now c))) \<subseteq> set (accessCount c)
       \<and> (\<forall>old \<in> set (accessCount c). \<forall>kept \<in> set (accessCount (snd (smartCleanup now c))).
             old \<notin> set (accessCount (snd (smartCleanup now c)))
               \<longrightarrow> score_at now c old \<le> score_at now c kept)
       \<and> (\<forall>k \<in> tracked c. k \<notin> tracked (snd (smartCleanup now c))
               \<longrightarrow> k \<notin> fst ` set (lastAccess (snd (smartCleanup now c))))
       \<and> (\<forall>p \<in> set (lastAccess c). fst p \<in> tracked (snd (smartCleanup now c))
               \<longrightarrow> p \<in> set (lastAccess (snd (smartCleanup now c))))
       \<and> kasFreeDB (snd (smartCleanup now c)) = kasFreeDB c
       \<and> (length (accessCount c) = 100
             \<longrightarrow> length (accessCount (snd (smartCleanup now c))) = 80
                 \<and> fst (smartCleanup now c) = 20)
       \<and> (length (accessCount c) \<le> 10 \<longrightarrow> smartCleanup now c = (0, c))"
proof -
  let ?N = "length (accessCount c)"
  let ?c' = "snd (smartCleanup now c)"
  have len0: "length (accessCount ?c') = min ?N (nat (keepCount_of ?N))"
  proof (cases "?N \<le> 10")
    case True
    moreover have "10 \<le> keepCount_of ?N" by (simp add: keepCount_of_def)
    ultimately show ?thesis by (simp add: smartCleanup_no_eviction)
  next
    case False
    then have big: "10 < ?N" by simp
    have "keepCount_of ?N \<le> int ?N" using big by (intro keepCount_le) simp
    then show ?thesis
      using smartCleanup_eviction(4) [OF assms big] by simp
  qed
  have len: "length (accessCount ?c') = min ?N (nat (max 10 \<lceil>real ?N * 0.8\<rceil>))"
    using len0 by (simp only: keepCount_of_def)
  have ret: "fst (smartCleanup now c) = int ?N - int (length (accessCount ?c'))"
  proof (cases "?N \<le> 10")
    case True
    then show ?thesis by (simp add: smartCleanup_no_eviction)
  next
    case False
    then have big: "10 < ?N" by simp
    have "keepCount_of ?N \<le> int ?N" using big by (intro keepCount_le) simp
    moreover have "0 \<le> keepCount_of ?N" by (simp add: keepCount_of_def)
    ultimately show ?thesis
      using smartCleanup_eviction(1,4) [OF assms big] by simp
  qed
  have sub: "set (accessCount ?c') \<subseteq> set (accessCount c)"
  proof (cases "?N \<le> 10")
    case True
    then show ?thesis by (simp add: smartCleanup_no_eviction)
  next
    case False
    then show ?thesis using smartCleanup_eviction(2) [OF assms] by auto
  qed
  have low: "\<forall>old \<in> set (accessCount c). \<forall>kept \<in> set (accessCount ?c').
             old \<notin> set (accessCount ?c') \<longrightarrow> score_at now c old \<le> score_at now c kept"
    using smartCleanup_lowest [OF assms] by blast
  have la: "\<forall>k \<in> tracked c. k \<notin> tracked ?c' \<longrightarrow> k \<notin> fst ` set (lastAccess ?c')"
  proof (cases "?N \<le> 10")
    case True
    then show ?thesis by (simp add: smartCleanup_no_eviction)
  next
    case False
    then have big: "10 < ?N" by simp
    show ?thesis
    proof (intro ballI impI)
      fix k assume "k \<in> tracked c" and "k \<notin> tracked ?c'"
      then have "k \<in> e_url ` set (take (nat (int ?N - keepCount_of ?N))
                   (sort_key e_score (map (score_entry now (lastAccess c)) (accessCount c))))"
        unfolding tracked_def smartCleanup_eviction(2) [OF assms big]
        by (rule filtered_key_evicted)
      then show "k \<notin> fst ` set (lastAccess ?c')"
        unfolding smartCleanup_eviction(3) [OF assms big]
        by (rule evicted_key_filtered)
    qed
  qed
  have keep: "\<forall>p \<in> set (lastAccess c). fst p \<in> tracked ?c' \<longrightarrow> p \<in> set (lastAccess ?c')"
  proof (cases "?N \<le> 10")
    case True
    then show ?thesis by (simp add: smartCleanup_no_eviction)
  next
    case False
    then have big: "10 < ?N" by simp
    show ?thesis
    proof (intro ballI impI)
      fix p assume p: "p \<in> set (lastAccess c)" and t: "fst p \<in> tracked ?c'"
      from t have "fst p \<notin> e_url ` set (take (nat (int ?N - keepCount_of ?N))
                   (sort_key e_score (map (score_entry now (lastAccess c)) (accessCount c))))"
        unfolding tracked_def smartCleanup_eviction(2) [OF assms big]
        by (rule surviving_key_not_evicted)
      with p show "p \<in> set (lastAccess ?c')"
        unfolding smartCleanup_eviction(3) [OF assms big] by simp
    qed
  qed
  have store: "kasFreeDB ?c' = kasFreeDB c"
    by (simp add: smartCleanup_unfold foldl_delete_entry)
  have hundred: "?N = 100 \<longrightarrow> length (accessCount ?c') = 80 \<and> fst (smartCleanup now c) = 20"
    using len ret by simp
  have small: "?N \<le> 10 \<longrightarrow> smartCleanup now c = (0, c)"
    by (simp add: smartCleanup_no_eviction)
  from len ret sub low la keep store hundred small show ?thesis by blast
qed

lemma cache_of_size_keys:
  "distinct (map fst (accessCount (cache_of_size n)))"
  "length (accessCount (cache_of_size n)) = n"
  by (simp_all add: cache_of_size_def comp_def distinct_map inj_on_def unary_key_def)

lemma keepCount_12: "keepCount_of 12 = 10"
  unfolding keepCount_of_def ceiling_four_fifths by simp

lemma upt_12: "[0..<12] = [0, 1, 2, 3, 4, 5, 6, 7, 8, 9, 10, 11::nat]"
  by code_simp

lemma unary_key_eq: "unary_key i = unary_key j \<longleftrightarrow> i = j"
  by (simp add: unary_key_def)

lemma cache_12_fields:
  "accessCount (cache_of_size 12) = map (\<lambda>i. (unary_key i, int i + 1)) [0,1,2,3,4,5,6,7,8,9,10,11]"
  "lastAccess (cache_of_size 12) = map (\<lambda>i. (unary_key i, 0)) [0,1,2,3,4,5,6,7,8,9,10,11]"
  "kasFreeDB (cache_of_size 12) = Some \<lparr>db_analysis = map unary_key [0,1,2,3,4,5,6,7,8,9,10,11]\<rparr>"
  by (simp_all add: cache_of_size_def upt_12 del: list.map)

lemma cache_12_entries:
  "map (score_entry 86400000 (lastAccess (cache_of_size 12))) (accessCount (cache_of_size 12))
     = map (\<lambda>i. \<lparr>e_url = unary_key i, e_count = int i + 1, e_age = 86400000,
                    e_score = (int i + 1) * 1000\<rparr>) [0,1,2,3,4,5,6,7,8,9,10,11]"
  by (simp add: cache_12_fields score_entry_def Let_def unary_key_eq)

lemma cache_12_sorted:
  "sort_key e_score
     (map (score_entry 86400000 (lastAccess (cache_of_size 12))) (accessCount (cache_of_size 12)))
   = map (\<lambda>i. \<lparr>e_url = unary_key i, e_count = int i + 1, e_age = 86400000,
                    e_score = (int i + 1) * 1000\<rparr>) [0,1,2,3,4,5,6,7,8,9,10,11]"
  unfolding cache_12_entries by (rule sort_key_id_if_sorted) simp

lemma cache_12_swept:
  "smartCleanup 86400000 (cache_of_size 12)
     = (2, foldl delete_entry (cache_of_size 12)
             [\<lparr>e_url = unary_key 0, e_count = 1, e_age = 86400000, e_score = 1000\<rparr>,
              \<lparr>e_url = unary_key 1, e_count = 2, e_age = 86400000, e_score = 2000\<rparr>])"
proof -
  have len: "length (accessCount (cache_of_size 12)) = 12" by (simp add: cache_of_size_keys)
  have two: "nat (int (12::nat) - 10) = Suc (Suc 0)" by simp
  show ?thesis
    unfolding smartCleanup_unfold len keepCount_12 cache_12_sorted two
    by simp
qed

text \<open>
  Claim C5, at a cache of twelve entries whose keys are also in the persistent store.  The
  sweep evicts the two entries with the lowest scores from \<open>accessCount\<close> and from
  \<open>lastAccess\<close>, and the store still holds all twelve keys, the two evicted ones
  included: the claim has them removed from the store as well.
\<close>

theorem smartCleanup_leaves_store:
  "fst (smartCleanup 86400000 (cache_of_size 12)) = 2
   \<and> map fst (accessCount (snd (smartCleanup 86400000 (cache_of_size 12))))
       = map unary_key [2, 3, 4, 5, 6, 7, 8, 9, 10, 11]
   \<and> map fst (lastAccess (snd (smartCleanup 86400000 (cache_of_size 12))))
       = map unary_key [2, 3, 4, 5, 6, 7, 8, 9, 10, 11]
   \<and> map_option db_analysis (kasFreeDB (snd (smartCleanup 86400000 (cache_of_size 12))))
       = Some (map unary_key [0, 1, 2, 3, 4, 5, 6, 7, 8, 9, 10, 11])"
  by (simp add: cache_12_swept delete_entry_fields cache_12_fields unary_key_eq)

section \<open>Properties of the API client\<close>

text \<open>
  Claim C6.  For every attempt index \<open>i\<close> and every random number from zero up to one, the
  delay is a value of the interval from \<open>2^i * baseDelay\<close> up to, not including,
  \<open>2^i * baseDelay + 1000\<close>, capped at 10000: it is the smaller of such a value and 10000,
  it never exceeds 10000, and it lies in the interval itself whenever the interval lies
  below the cap.  With \<open>baseDelay = 1000\<close>, attempt 0 waits from 1000 up to 2000 and
  attempt 3 from 8000 up to 9000.
\<close>

theorem calculateDelay_interval:
  assumes "0 \<le> r" and "r < 1"
  shows "(\<exists>v. 2 ^ i * baseDelay c \<le> v \<and> v < 2 ^ i * baseDelay c + 1000
              \<and> calculateDelay c i r = min v 10000)
       \<and> calculateDelay c i r \<le> 10000
       \<and> (2 ^ i * baseDelay c + 1000 \<le> 10000 \<longrightarrow>
             2 ^ i * baseDelay c \<le> calculateDelay c i r
             \<and> calculateDelay c i r < 2 ^ i * baseDelay c + 1000)
       \<and> (baseDelay c = 1000 \<longrightarrow>
             1000 \<le> calculateDelay c 0 r \<and> calculateDelay c 0 r < 2000
             \<and> 8000 \<le> calculateDelay c 3 r \<and> calculateDelay c 3 r < 9000)"
proof -
  let ?v = "2 ^ i * baseDelay c + r * 1000"
  have j: "0 \<le> r * 1000" "r * 1000 < 1000" using assms by simp_all
  have "2 ^ i * baseDelay c \<le> ?v \<and> ?v < 2 ^ i * baseDelay c + 1000
          \<and> calculateDelay c i r = min ?v 10000"
    using j by (simp add: calculateDelay_def Let_def)
  then have ex: "\<exists>v. 2 ^ i * baseDelay c \<le> v \<and> v < 2 ^ i * baseDelay c + 1000
              \<and> calculateDelay c i r = min v 10000"
    by blast
  have cap: "calculateDelay c i r \<le> 10000"
    by (simp add: calculateDelay_def Let_def)
  have uncapped: "2 ^ i * baseDelay c + 1000 \<le> 10000 \<longrightarrow>
             2 ^ i * baseDelay c \<le> calculateDelay c i r
             \<and> calculateDelay c i r < 2 ^ i * baseDelay c + 1000"
    using j by (simp add: calculateDelay_def Let_def min_def)
  have inst: "baseDelay c = 1000 \<longrightarrow>
             1000 \<le> calculateDelay c 0 r \<and> calculateDelay c 0 r < 2000
             \<and> 8000 \<le> calculateDelay c 3 r \<and> calculateDelay c 3 r < 9000"
    using j by (simp add: calculateDelay_def Let_def min_def)
  from ex cap uncapped inst show ?thesis by blast
qed

lemma new_ApiClient_default:
  "baseDelay (new_ApiClient no_api_options) = 1000"
  "client_maxRetries (new_ApiClient no_api_options) = 3"
  by (simp_all add: new_ApiClient_def no_api_options_def or_default_def Let_def)

theorem calculateDelay_interval_witness:
  "(0::real) \<le> 0.5 \<and> (0.5::real) < 1
   \<and> baseDelay (new_ApiClient no_api_options) = 1000
   \<and> 1000 \<le> calculateDelay (new_ApiClient no_api_options) 0 0.5
   \<and> calculateDelay (new_ApiClient no_api_options) 0 0.5 < 2000
   \<and> 8000 \<le> calculateDelay (new_ApiClient no_api_options) 3 0.5
   \<and> calculateDelay (new_ApiClient no_api_options) 3 0.5 < 9000
   \<and> calculateDelay (new_ApiClient no_api_options) 4 0.5 \<le> 10000"
  using calculateDelay_interval [of "0.5" 4 "new_ApiClient no_api_options"]
  by (simp add: new_ApiClient_default)

lemma fetchWithTimeout_Inl:
  "fetchWithTimeout c url out = (Inl e, c') \<Longrightarrow>
     \<exists>err. out = Rejected err
       \<and> (if error_name err = ''AbortError'' then (\<exists>msg. e = ApiError msg 408 True) else e = err)"
  by (cases out) (auto simp add: fetchWithTimeout_def Let_def split: if_splits option.splits)

lemma fetchWithTimeout_Inr:
  "fetchWithTimeout c url out = (Inr r, c') \<Longrightarrow> \<exists>t. out = Resolved r t"
  by (cases out) (auto simp add: fetchWithTimeout_def Let_def split: if_splits option.splits)

lemma fetchWithTimeout_Resolved:
  "fst (fetchWithTimeout c url (Resolved r t)) = Inr r"
  by (simp add: fetchWithTimeout_def Let_def)

lemma loop_response_retry:
  assumes "attempt \<le> client_maxRetries c"
    and "fetchWithTimeout c url (fetches attempt) = (Inr response, c')"
    and "isRetryableStatus (resp_status response)" and "attempt < client_maxRetries c"
  shows "fetchWithRetry_loop c url fetches randoms attempt lastError delays
           = fetchWithRetry_loop c' url fetches randoms (attempt + 1) lastError
               (delays @ [calculateDelay c attempt (randoms attempt)])"
  using assms by (subst fetchWithRetry_loop.simps) simp

lemma loop_response_return:
  assumes "attempt \<le> client_maxRetries c"
    and "fetchWithTimeout c url (fetches attempt) = (Inr response, c')"
    and "\<not> isRetryableStatus (resp_status response) \<or> attempt = client_maxRetries c"
  shows "fetchWithRetry_loop c url fetches randoms attempt lastError delays
           = \<lparr>fr_outcome = Inr response, fr_client = c', fr_delays = delays,
               fr_attempts = attempt + 1\<rparr>"
  using assms by (subst fetchWithRetry_loop.simps) auto

lemma loop_error_retry:
  assumes "attempt \<le> client_maxRetries c"
    and "fetchWithTimeout c url (fetches attempt) = (Inl error, c')"
    and "retryable_ApiError error \<or> error_name error = ''TypeError''"
    and "attempt < client_maxRetries c"
  shows "fetchWithRetry_loop c url fetches randoms attempt lastError delays
           = fetchWithRetry_loop c' url fetches randoms (attempt + 1) (Some error)
               (delays @ [calculateDelay c attempt (randoms attempt)])"
  using assms by (subst fetchWithRetry_loop.simps) auto

lemma loop_error_throw:
  assumes "attempt \<le> client_maxRetries c"
    and "fetchWithTimeout c url (fetches attempt) = (Inl error, c')"
    and "\<not> (retryable_ApiError error \<or> error_name error = ''TypeError'')
         \<or> attempt = client_maxRetries c"
  shows "fetchWithRetry_loop c url fetches randoms attempt lastError delays
           = \<lparr>fr_outcome = Inl error, fr_client = c', fr_delays = delays,
               fr_attempts = attempt + 1\<rparr>"
  using assms by (subst fetchWithRetry_loop.simps) auto

lemma loop_throw_origin:
  assumes "fr_outcome (fetchWithRetry_loop c url fetches randoms a le ds) = Inl e"
    and "a \<le> client_maxRetries c"
  shows "\<exists>k err. a \<le> k \<and> k \<le> client_maxRetries c \<and> fetches k = Rejected err
       \<and> (if error_name err = ''AbortError'' then (\<exists>msg. e = ApiError msg 408 True) else e = err)
       \<and> fr_attempts (fetchWithRetry_loop c url fetches randoms a le ds) = k + 1"
  using assms
proof (induction "client_maxRetries c - a" arbitrary: a c le ds)
  case 0
  then have last: "a = client_maxRetries c" by simp
  obtain res c' where step: "fetchWithTimeout c url (fetches a) = (res, c')"
    by (cases "fetchWithTimeout c url (fetches a)") auto
  show ?case
  proof (cases res)
    case (Inr response)
    have "fetchWithRetry_loop c url fetches randoms a le ds
          = \<lparr>fr_outcome = Inr response, fr_client = c', fr_delays = ds, fr_attempts = a + 1\<rparr>"
      using last
      by (intro loop_response_return [where fetches = fetches and attempt = a,
            OF "0.prems"(2) step [unfolded Inr]]) simp
    with "0.prems"(1) show ?thesis by simp
  next
    case (Inl error)
    have eq: "fetchWithRetry_loop c url fetches randoms a le ds
          = \<lparr>fr_outcome = Inl error, fr_client = c', fr_delays = ds, fr_attempts = a + 1\<rparr>"
      using last
      by (intro loop_error_throw [where fetches = fetches and attempt = a,
            OF "0.prems"(2) step [unfolded Inl]]) simp
    with "0.prems"(1) have "e = error" by simp
    with fetchWithTimeout_Inl [OF step [unfolded Inl]] "0.prems"(2) eq show ?thesis
      by (intro exI [of _ a]) auto
  qed
next
  case (Suc n)
  then have lt: "a < client_maxRetries c" by simp
  obtain res c' where step: "fetchWithTimeout c url (fetches a) = (res, c')"
    by (cases "fetchWithTimeout c url (fetches a)") auto
  have mr: "client_maxRetries c' = client_maxRetries c"
    using fetchWithTimeout_maxRetries [OF step] .
  have n: "n = client_maxRetries c' - (a + 1)" using Suc.hyps(2) mr by simp
  have nxt: "a + 1 \<le> client_maxRetries c'" using lt mr by simp
  have later: "\<exists>k err. a \<le> k \<and> k \<le> client_maxRetries c \<and> fetches k = Rejected err
       \<and> (if error_name err = ''AbortError'' then (\<exists>msg. e = ApiError msg 408 True) else e = err)
       \<and> fr_attempts (fetchWithRetry_loop c' url fetches randoms (a + 1) le' ds') = k + 1"
    if "fr_outcome (fetchWithRetry_loop c' url fetches randoms (a + 1) le' ds') = Inl e" for le' ds'
  proof -
    from Suc.hyps(1) [OF n that nxt] obtain k err where
      "a + 1 \<le> k" "k \<le> client_maxRetries c'" "fetches k = Rejected err"
      "if error_name err = ''AbortError'' then (\<exists>msg. e = ApiError msg 408 True) else e = err"
      "fr_attempts (fetchWithRetry_loop c' url fetches randoms (a + 1) le' ds') = k + 1"
      by blast
    then show ?thesis using mr by (intro exI [of _ k] exI [of _ err]) simp
  qed
  show ?case
  proof (cases res)
    case (Inr response)
    show ?thesis
    proof (cases "isRetryableStatus (resp_status response)")
      case True
      from Suc.prems(1) show ?thesis
        unfolding loop_response_retry [where fetches = fetches and attempt = a,
            OF Suc.prems(2) step [unfolded Inr] True lt]
        by (rule later)
    next
      case False
      have "fetchWithRetry_loop c url fetches randoms a le ds
          = \<lparr>fr_outcome = Inr response, fr_client = c', fr_delays = ds, fr_attempts = a + 1\<rparr>"
        using False
        by (intro loop_response_return [where fetches = fetches and attempt = a,
              OF Suc.prems(2) step [unfolded Inr]]) simp
      with Suc.prems(1) show ?thesis by simp
    qed
  next
    case (Inl error)
    show ?thesis
    proof (cases "retryable_ApiError error \<or> error_name error = ''TypeError''")
      case True
      from Suc.prems(1) show ?thesis
        unfolding loop_error_retry [where fetches = fetches and attempt = a,
            OF Suc.prems(2) step [unfolded Inl] True lt]
        by (rule later)
    next
      case False
      have eq: "fetchWithRetry_loop c url fetches randoms a le ds
          = \<lparr>fr_outcome = Inl error, fr_client = c', fr_delays = ds, fr_attempts = a + 1\<rparr>"
        using False
        by (intro loop_error_throw [where fetches = fetches and attempt = a,
              OF Suc.prems(2) step [unfolded Inl]]) simp
      with Suc.prems(1) have "e = error" by simp
      with fetchWithTimeout_Inl [OF step [unfolded Inl]] Suc.prems(2) eq show ?thesis
        by (intro exI [of _ a]) auto
    qed
  qed
qed

lemma loop_return_origin:
  assumes "fr_outcome (fetchWithRetry_loop c url fetches randoms a le ds) = Inr r"
    and "a \<le> client_maxRetries c"
  shows "\<exists>k t. a \<le> k \<and> k \<le> client_maxRetries c \<and> fetches k = Resolved r t
       \<and> (\<not> isRetryableStatus (resp_status r) \<or> k = client_maxRetries c)
       \<and> fr_attempts (fetchWithRetry_loop c url fetches randoms a le ds) = k + 1"
  using assms
proof (induction "client_maxRetries c - a" arbitrary: a c le ds)
  case 0
  then have last: "a = client_maxRetries c" by simp
  obtain res c' where step: "fetchWithTimeout c url (fetches a) = (res, c')"
    by (cases "fetchWithTimeout c url (fetches a)") auto
  show ?case
  proof (cases res)
    case (Inr response)
    have eq: "fetchWithRetry_loop c url fetches randoms a le ds
          = \<lparr>fr_outcome = Inr response, fr_client = c', fr_delays = ds, fr_attempts = a + 1\<rparr>"
      using last
      by (intro loop_response_return [where fetches = fetches and attempt = a,
            OF "0.prems"(2) step [unfolded Inr]]) simp
    with "0.prems"(1) have "r = response" by simp
    with fetchWithTimeout_Inr [OF step [unfolded Inr]] last eq show ?thesis
      by (intro exI [of _ a]) auto
  next
    case (Inl error)
    have "fetchWithRetry_loop c url fetches randoms a le ds
          = \<lparr>fr_outcome = Inl error, fr_client = c', fr_delays = ds, fr_attempts = a + 1\<rparr>"
      using last
      by (intro loop_error_throw [where fetches = fetches and attempt = a,
            OF "0.prems"(2) step [unfolded Inl]]) simp
    with "0.prems"(1) show ?thesis by simp
  qed
next
  case (Suc n)
  then have lt: "a < client_maxRetries c" by simp
  obtain res c' where step: "fetchWithTimeout c url (fetches a) = (res, c')"
    by (cases "fetchWithTimeout c url (fetches a)") auto
  have mr: "client_maxRetries c' = client_maxRetries c"
    using fetchWithTimeout_maxRetries [OF step] .
  have n: "n = client_maxRetries c' - (a + 1)" using Suc.hyps(2) mr by simp
  have nxt: "a + 1 \<le> client_maxRetries c'" using lt mr by simp
  have later: "\<exists>k t. a \<le> k \<and> k \<le> client_maxRetries c \<and> fetches k = Resolved r t
       \<and> (\<not> isRetryableStatus (resp_status r) \<or> k = client_maxRetries c)
       \<and> fr_attempts (fetchWithRetry_loop c' url fetches randoms (a + 1) le' ds') = k + 1"
    if "fr_outcome (fetchWithRetry_loop c' url fetches randoms (a + 1) le' ds') = Inr r" for le' ds'
  proof -
    from Suc.hyps(1) [OF n that nxt] obtain k t where
      "a + 1 \<le> k" "k \<le> client_maxRetries c'" "fetches k = Resolved r t"
      "\<not> isRetryableStatus (resp_status r) \<or> k = client_maxRetries c'"
      "fr_attempts (fetchWithRetry_loop c' url fetches randoms (a + 1) le' ds') = k + 1"
      by blast
    then show ?thesis using mr by (intro exI [of _ k] exI [of _ t]) simp
  qed
  show ?case
  proof (cases res)
    case (Inr response)
    show ?thesis
    proof (cases "isRetryableStatus (resp_status response)")
      case True
      from Suc.prems(1) show ?thesis
        unfolding loop_response_retry [where fetches = fetches and attempt = a,
            OF Suc.prems(2) step [unfolded Inr] True lt]
        by (rule later)
    next
      case False
      have eq: "fetchWithRetry_loop c url fetches randoms a le ds
          = \<lparr>fr_outcome = Inr response, fr_client = c', fr_delays = ds, fr_attempts = a + 1\<rparr>"
        using False
        by (intro loop_response_return [where fetches = fetches and attempt = a,
              OF Suc.prems(2) step [unfolded Inr]]) simp
      with Suc.prems(1) have "r = response" by simp
      with fetchWithTimeout_Inr [OF step [unfolded Inr]] Suc.prems(2) eq False show ?thesis
        by (intro exI [of _ a]) auto
    qed
  next
    case (Inl error)
    show ?thesis
    proof (cases "retryable_ApiError error \<or> error_name error = ''TypeError''")
      case True
      from Suc.prems(1) show ?thesis
        unfolding loop_error_retry [where fetches = fetches and attempt = a,
            OF Suc.prems(2) step [unfolded Inl] True lt]
        by (rule later)
    next
      case False
      have "fetchWithRetry_loop c url fetches randoms a le ds
          = \<lparr>fr_outcome = Inl error, fr_client = c', fr_delays = ds, fr_attempts = a + 1\<rparr>"
        using False
        by (intro loop_error_throw [where fetches = fetches and attempt = a,
              OF Suc.prems(2) step [unfolded Inl]]) simp
      with Suc.prems(1) show ?thesis by simp
    qed
  qed
qed

lemma loop_returns_at_once:
  assumes "k \<le> client_maxRetries c" and "fetches k = Resolved r t"
    and "\<not> isRetryableStatus (resp_status r)"
  shows "fr_outcome (fetchWithRetry_loop c url fetches randoms k le ds) = Inr r
       \<and> fr_attempts (fetchWithRetry_loop c url fetches randoms k le ds) = k + 1
       \<and> fr_delays (fetchWithRetry_loop c url fetches randoms k le ds) = ds"
proof -
  obtain c' where step: "fetchWithTimeout c url (fetches k) = (Inr r, c')"
    using fetchWithTimeout_Resolved [of c url r t] assms(2)
    by (cases "fetchWithTimeout c url (fetches k)") auto
  have "fetchWithRetry_loop c url fetches randoms k le ds
          = \<lparr>fr_outcome = Inr r, fr_client = c', fr_delays = ds, fr_attempts = k + 1\<rparr>"
    using assms(3)
    by (intro loop_response_return [where fetches = fetches and attempt = k, OF assms(1) step]) simp
  then show ?thesis by simp
qed

lemma loop_all_retryable:
  assumes "\<forall>k. a \<le> k \<and> k \<le> client_maxRetries c \<longrightarrow>
             (\<exists>r t. fetches k = Resolved r t \<and> isRetryableStatus (resp_status r))"
    and "a \<le> client_maxRetries c"
  shows "\<exists>r t. fetches (client_maxRetries c) = Resolved r t
           \<and> fr_outcome (fetchWithRetry_loop c url fetches randoms a le ds) = Inr r
           \<and> fr_attempts (fetchWithRetry_loop c url fetches randoms a le ds) = client_maxRetries c + 1"
  using assms
proof (induction "client_maxRetries c - a" arbitrary: a c ds)
  case 0
  then have last: "a = client_maxRetries c" by simp
  from "0.prems" obtain r t where f: "fetches a = Resolved r t" by blast
  obtain c' where step: "fetchWithTimeout c url (fetches a) = (Inr r, c')"
    using fetchWithTimeout_Resolved [of c url r t] f
    by (cases "fetchWithTimeout c url (fetches a)") auto
  have "fetchWithRetry_loop c url fetches randoms a le ds
          = \<lparr>fr_outcome = Inr r, fr_client = c', fr_delays = ds, fr_attempts = a + 1\<rparr>"
    using last
    by (intro loop_response_return [where fetches = fetches and attempt = a, OF "0.prems"(2) step]) simp
  then show ?case
    using f last by simp
next
  case (Suc n)
  then have lt: "a < client_maxRetries c" by simp
  from Suc.prems obtain r t where f: "fetches a = Resolved r t"
    and rs: "isRetryableStatus (resp_status r)" by blast
  obtain c' where step: "fetchWithTimeout c url (fetches a) = (Inr r, c')"
    using fetchWithTimeout_Resolved [of c url r t] f
    by (cases "fetchWithTimeout c url (fetches a)") auto
  have mr: "client_maxRetries c' = client_maxRetries c"
    using fetchWithTimeout_maxRetries [OF step] .
  have n: "n = client_maxRetries c' - (a + 1)" using Suc.hyps(2) mr by simp
  have nxt: "a + 1 \<le> client_maxRetries c'" using lt mr by simp
  have all: "\<forall>k. a + 1 \<le> k \<and> k \<le> client_maxRetries c' \<longrightarrow>
             (\<exists>r t. fetches k = Resolved r t \<and> isRetryableStatus (resp_status r))"
    using Suc.prems(1) mr by simp
  show ?case
    unfolding loop_response_retry [where fetches = fetches and attempt = a, OF Suc.prems(2) step rs lt]
    using Suc.hyps(1) [OF n all nxt] mr by simp
qed

text \<open>
  Claim C9.  \<open>fetchWithRetry\<close> does not throw because of an HTTP status.  A response with
  a status that is not retryable (400, 401, 403 and 404 are not) is returned at the
  attempt that receives it, with no further attempt and no further delay, at the first
  attempt in particular.  When every attempt receives a retryable status (500 and above,
  408, 429), the response of the last attempt is returned after \<open>maxRetries + 1\<close>
  attempts.  A response that is returned is the response of the last attempt made, and it carries a
  status that is not retryable unless the attempts are used up.
  When \<open>fetchWithRetry\<close> throws, the last attempt made was rejected by
  \<open>fetch\<close>: if the rejection was an abort by the timeout, the error thrown is the
  retryable ApiError with status 408, and otherwise it is the rejection itself.
\<close>

theorem fetchWithRetry_status_never_throws:
  "(k \<le> client_maxRetries c \<and> fetches k = Resolved r t \<and> \<not> isRetryableStatus (resp_status r) \<longrightarrow>
      fr_outcome (fetchWithRetry_loop c url fetches randoms k lastError delays) = Inr r
      \<and> fr_attempts (fetchWithRetry_loop c url fetches randoms k lastError delays) = k + 1
      \<and> fr_delays (fetchWithRetry_loop c url fetches randoms k lastError delays) = delays)
   \<and> (fetches 0 = Resolved r t \<and> \<not> isRetryableStatus (resp_status r) \<longrightarrow>
      fr_outcome (fetchWithRetry c url fetches randoms) = Inr r
      \<and> fr_attempts (fetchWithRetry c url fetches randoms) = 1
      \<and> fr_delays (fetchWithRetry c url fetches randoms) = [])
   \<and> ((\<forall>j \<le> client_maxRetries c. \<exists>r' t'. fetches j = Resolved r' t'
                                       \<and> isRetryableStatus (resp_status r')) \<longrightarrow>
      (\<exists>r' t'. fetches (client_maxRetries c) = Resolved r' t'
          \<and> fr_outcome (fetchWithRetry c url fetches randoms) = Inr r'
          \<and> fr_attempts (fetchWithRetry c url fetches randoms) = client_maxRetries c + 1))
   \<and> (fr_outcome (fetchWithRetry c url fetches randoms) = Inl e \<longrightarrow>
      (\<exists>j err. j \<le> client_maxRetries c \<and> fetches j = Rejected err
          \<and> (if error_name err = ''AbortError'' then (\<exists>msg. e = ApiError msg 408 True) else e = err)
          \<and> fr_attempts (fetchWithRetry c url fetches randoms) = j + 1))
   \<and> (fr_outcome (fetchWithRetry c url fetches randoms) = Inr resp \<longrightarrow>
      (\<exists>j t'. j \<le> client_maxRetries c \<and> fetches j = Resolved resp t'
          \<and> (\<not> isRetryableStatus (resp_status resp) \<or> j = client_maxRetries c)
          \<and> fr_attempts (fetchWithRetry c url fetches randoms) = j + 1))
   \<and> \<not> isRetryableStatus 400 \<and> \<not> isRetryableStatus 401 \<and> \<not> isRetryableStatus 403
   \<and> \<not> isRetryableStatus 404
   \<and> isRetryableStatus 408 \<and> isRetryableStatus 429 \<and> (\<forall>s \<ge> 500. isRetryableStatus s)"
proof -
  have anywhere: "k \<le> client_maxRetries c \<and> fetches k = Resolved r t
      \<and> \<not> isRetryableStatus (resp_status r) \<longrightarrow>
      fr_outcome (fetchWithRetry_loop c url fetches randoms k lastError delays) = Inr r
      \<and> fr_attempts (fetchWithRetry_loop c url fetches randoms k lastError delays) = k + 1
      \<and> fr_delays (fetchWithRetry_loop c url fetches randoms k lastError delays) = delays"
    using loop_returns_at_once [of k c fetches r t url randoms lastError delays] by blast
  have first: "fetches 0 = Resolved r t \<and> \<not> isRetryableStatus (resp_status r) \<longrightarrow>
      fr_outcome (fetchWithRetry c url fetches randoms) = Inr r
      \<and> fr_attempts (fetchWithRetry c url fetches randoms) = 1
      \<and> fr_delays (fetchWithRetry c url fetches randoms) = []"
    unfolding fetchWithRetry_def
    using loop_returns_at_once [of 0 c fetches r t url randoms None "[]"] by simp
  have exhausted: "(\<forall>j \<le> client_maxRetries c. \<exists>r' t'. fetches j = Resolved r' t'
                                       \<and> isRetryableStatus (resp_status r')) \<longrightarrow>
      (\<exists>r' t'. fetches (client_maxRetries c) = Resolved r' t'
          \<and> fr_outcome (fetchWithRetry c url fetches randoms) = Inr r'
          \<and> fr_attempts (fetchWithRetry c url fetches randoms) = client_maxRetries c + 1)"
    unfolding fetchWithRetry_def
    using loop_all_retryable [of 0 c fetches url randoms None "[]"] by simp
  have thrown: "fr_outcome (fetchWithRetry c url fetches randoms) = Inl e \<longrightarrow>
      (\<exists>j err. j \<le> client_maxRetries c \<and> fetches j = Rejected err
          \<and> (if error_name err = ''AbortError'' then (\<exists>msg. e = ApiError msg 408 True) else e = err)
          \<and> fr_attempts (fetchWithRetry c url fetches randoms) = j + 1)"
    unfolding fetchWithRetry_def
    using loop_throw_origin [of c url fetches randoms 0 None "[]" e] by auto
  have returned: "fr_outcome (fetchWithRetry c url fetches randoms) = Inr resp \<longrightarrow>
      (\<exists>j t'. j \<le> client_maxRetries c \<and> fetches j = Resolved resp t'
          \<and> (\<not> isRetryableStatus (resp_status resp) \<or> j = client_maxRetries c)
          \<and> fr_attempts (fetchWithRetry c url fetches randoms) = j + 1)"
    unfolding fetchWithRetry_def
    using loop_return_origin [of c url fetches randoms 0 None "[]" resp] by auto
  have codes: "\<not> isRetryableStatus 400 \<and> \<not> isRetryableStatus 401 \<and> \<not> isRetryableStatus 403
   \<and> \<not> isRetryableStatus 404
   \<and> isRetryableStatus 408 \<and> isRetryableStatus 429 \<and> (\<forall>s \<ge> 500. isRetryableStatus s)"
    by (simp add: isRetryableStatus_def)
  from anywhere first exhausted thrown returned codes show ?thesis by blast
qed

lemma responding_retryable:
  "isRetryableStatus s \<Longrightarrow>
   \<forall>j \<le> n. \<exists>r' t'. responding s j = Resolved r' t' \<and> isRetryableStatus (resp_status r')"
  by (simp add: responding_def)

theorem fetchWithRetry_status_never_throws_witness:
  "fr_outcome (fetchWithRetry (new_ApiClient no_api_options) (Some ''api.openai.com'')
       (responding 404) half)
     = Inr \<lparr>resp_status = 404, resp_ok = False, resp_body = []\<rparr>
   \<and> fr_attempts (fetchWithRetry (new_ApiClient no_api_options) (Some ''api.openai.com'')
       (responding 404) half) = 1
   \<and> fr_outcome (fetchWithRetry (new_ApiClient no_api_options) (Some ''api.openai.com'')
       (responding 503) half)
     = Inr \<lparr>resp_status = 503, resp_ok = False, resp_body = []\<rparr>
   \<and> fr_attempts (fetchWithRetry (new_ApiClient no_api_options) (Some ''api.openai.com'')
       (responding 503) half) = 4
   \<and> (\<exists>msg. fr_outcome (fetchWithRetry (new_ApiClient no_api_options)
         (Some ''api.openai.com'') aborting half) = Inl (ApiError msg 408 True))
   \<and> fr_outcome (fetchWithRetry (new_ApiClient no_api_options) (Some ''api.openai.com'')
       unreachable half) = Inl (JsError ''TypeError'' ''Failed to fetch'')"
proof -
  let ?c = "new_ApiClient no_api_options"
  let ?url = "Some ''api.openai.com''"
  have responses:
    "fr_outcome (fetchWithRetry ?c ?url (responding 404) half)
       = Inr \<lparr>resp_status = 404, resp_ok = False, resp_body = []\<rparr>
     \<and> fr_attempts (fetchWithRetry ?c ?url (responding 404) half) = 1
     \<and> fr_outcome (fetchWithRetry ?c ?url (responding 503) half)
       = Inr \<lparr>resp_status = 503, resp_ok = False, resp_body = []\<rparr>
     \<and> fr_attempts (fetchWithRetry ?c ?url (responding 503) half) = 4"
    using
      fetchWithRetry_status_never_throws
        [of 0 ?c "responding 404"
            "\<lparr>resp_status = 404, resp_ok = False, resp_body = []\<rparr>" 120]
      fetchWithRetry_status_never_throws
        [of 0 ?c "responding 503"
            "\<lparr>resp_status = 503, resp_ok = False, resp_body = []\<rparr>" 120]
      responding_retryable [of 503 3]
    by (simp add: responding_def isRetryableStatus_def new_ApiClient_default)
  have abort: "\<exists>msg. fr_outcome (fetchWithRetry ?c ?url aborting half) = Inl (ApiError msg 408 True)"
  proof (cases "fr_outcome (fetchWithRetry ?c ?url aborting half)")
    case (Inl e)
    with fetchWithRetry_status_never_throws
        [where c = ?c and url = ?url and fetches = aborting and randoms = half and e = e]
    show ?thesis by (auto simp add: aborting_def)
  next
    case (Inr resp)
    with fetchWithRetry_status_never_throws
        [where c = ?c and url = ?url and fetches = aborting and randoms = half and resp = resp]
    show ?thesis by (auto simp add: aborting_def)
  qed
  have network: "fr_outcome (fetchWithRetry ?c ?url unreachable half)
                   = Inl (JsError ''TypeError'' ''Failed to fetch'')"
  proof (cases "fr_outcome (fetchWithRetry ?c ?url unreachable half)")
    case (Inl e)
    with fetchWithRetry_status_never_throws
        [where c = ?c and url = ?url and fetches = unreachable and randoms = half and e = e]
    show ?thesis by (auto simp add: unreachable_def)
  next
    case (Inr resp)
    with fetchWithRetry_status_never_throws
        [where c = ?c and url = ?url and fetches = unreachable and randoms = half and resp = resp]
    show ?thesis by (auto simp add: unreachable_def)
  qed
  from responses abort network show ?thesis by blast
qed

end
